theory Spec2Isabelle
  imports Complex_Main "HOL-Library.AList"
begin

section \<open>Scores over an annotated data matrix (infercnvpy/tl/\_scores.py)\<close>

text \<open>
  The module \<^verbatim>\<open>infercnvpy/tl/_scores.py\<close> holds three functions, \<^verbatim>\<open>cnv_score\<close>,
  \<^verbatim>\<open>ithgex\<close> and \<^verbatim>\<open>ithcna\<close>. Each of them reads a grouping column of
  \<^verbatim>\<open>adata.obs\<close>, computes one number per group and either writes a per-cell column
  into \<^verbatim>\<open>adata.obs\<close> or returns the dictionary of the group scores.

  Numbers. A float64 is modelled by an exact real number or by \<open>NaN\<close>: rounding is not
  modelled, the places where NumPy produces not-a-number (a mean over no entries, a
  correlation with a row of variance zero) are. Entries of the input matrices are finite.
\<close>

subsection \<open>Floats, matrices and arrays\<close>

datatype npfloat = NaN | Fin real

type_synonym matrix = "real list list"

text \<open>Subtraction of two floats, \<^verbatim>\<open>q75 - q25\<close>: not-a-number propagates.\<close>

fun np_sub :: "npfloat \<Rightarrow> npfloat \<Rightarrow> npfloat" where
  "np_sub (Fin a) (Fin b) = Fin (a - b)"
| "np_sub _ _ = NaN"

text \<open>
  The result of \<^verbatim>\<open>np.corrcoef\<close> is a two-dimensional array, or a zero-dimensional one
  when the input has a single row. \<open>shape\<close> is \<^verbatim>\<open>ndarray.shape\<close>; an array with no
  row here is the 0 x 0 array that \<^verbatim>\<open>np.corrcoef\<close> returns for an input without rows.
\<close>

datatype ndarray = Arr0 npfloat | Arr2 "npfloat list list"

fun shape :: "ndarray \<Rightarrow> nat list" where
  "shape (Arr0 _) = []"
| "shape (Arr2 []) = [0, 0]"
| "shape (Arr2 (r # rs)) = [Suc (length rs), length r]"

fun flatten :: "ndarray \<Rightarrow> npfloat list" where
  "flatten (Arr0 x) = [x]"
| "flatten (Arr2 rows) = concat rows"


text \<open>\<^verbatim>\<open>np.mean(np.abs(M))\<close> over all entries of \<open>M\<close>; the mean of no entry is NaN.\<close>

definition mean_abs :: "matrix \<Rightarrow> npfloat" where
  "mean_abs M =
     (let es = concat M
      in if es = [] then NaN else Fin (sum_list (map abs es) / real (length es)))"

subsection \<open>np.corrcoef with rowvar=True\<close>

text \<open>
  \<^verbatim>\<open>np.corrcoef(X, rowvar=True)\<close> takes each row of \<open>X\<close> as one variable. With \<open>m\<close>
  columns, \<^verbatim>\<open>np.cov\<close> centres every row at its mean and divides the products of
  the centred rows by \<open>m - 1\<close>; \<^verbatim>\<open>corrcoef\<close> then divides entry \<open>(i, j)\<close> by the two
  standard deviations \<open>sqrt c\<^sub>i\<^sub>i\<close> and \<open>sqrt c\<^sub>j\<^sub>j\<close> and clips the result to \<open>[-1, 1]\<close>.
  With fewer than two columns the normalisation is a division by zero and every entry
  is NaN; an entry whose row or column has variance zero is \<open>0 / 0\<close>, NaN as well.
\<close>

definition row_mean :: "real list \<Rightarrow> real" where
  "row_mean r = sum_list r / real (length r)"

definition center :: "real list \<Rightarrow> real list" where
  "center r = map (\<lambda>x. x - row_mean r) r"

definition covar :: "real list \<Rightarrow> real list \<Rightarrow> real" where
  "covar u v = sum_list (map2 (*) (center u) (center v)) / real (length u - 1)"

definition clip :: "real \<Rightarrow> real" where
  "clip x = min 1 (max (- 1) x)"

definition corr_entry :: "real list \<Rightarrow> real list \<Rightarrow> npfloat" where
  "corr_entry u v =
     (if length u \<le> 1 then NaN
      else if covar u u = 0 \<or> covar v v = 0 then NaN
      else Fin (clip (covar u v / sqrt (covar u u) / sqrt (covar v v))))"

fun corrcoef :: "matrix \<Rightarrow> ndarray" where
  "corrcoef [] = Arr2 []"
| "corrcoef [r] = Arr0 (corr_entry r r)"
| "corrcoef M = Arr2 (map (\<lambda>u. map (\<lambda>v. corr_entry u v) M) M)"

subsection \<open>np.percentile\<close>

text \<open>
  \<^verbatim>\<open>np.percentile(a, q)\<close> with the default linear interpolation: the array is
  flattened and sorted, the virtual index is \<open>q / 100 * (n - 1)\<close>, and the result
  interpolates between the entries at its floor and at the next index. An array that
  holds a NaN, and an empty one, give NaN.
\<close>

definition percentile_real :: "real list \<Rightarrow> real \<Rightarrow> real" where
  "percentile_real xs q =
     (let s = sort xs;
          n = length s;
          vi = q / 100 * real (n - 1);
          lo = nat \<lfloor>vi\<rfloor>;
          hi = min (lo + 1) (n - 1)
      in s ! lo + (s ! hi - s ! lo) * (vi - real lo))"

fun the_fin :: "npfloat \<Rightarrow> real" where
  "the_fin (Fin x) = x"
| "the_fin NaN = 0"

definition percentile :: "npfloat list \<Rightarrow> real \<Rightarrow> npfloat" where
  "percentile xs q =
     (if xs = [] \<or> NaN \<in> set xs then NaN else Fin (percentile_real (map the_fin xs) q))"

text \<open>The two lines \<^verbatim>\<open>q75, q25 = np.percentile(pcorr, [75, 25])\<close> and \<^verbatim>\<open>q75 - q25\<close>.\<close>

definition iqr :: "ndarray \<Rightarrow> npfloat" where
  "iqr pcorr = np_sub (percentile (flatten pcorr) 75) (percentile (flatten pcorr) 25)"

subsection \<open>Labels, errors and dictionaries\<close>

text \<open>
  A cell of an \<^verbatim>\<open>obs\<close> column is a label or a float. Python's \<^verbatim>\<open>==\<close> is equality, but
  for NaN, which is equal to nothing: the mask \<^verbatim>\<open>adata.obs[groupby] == nan\<close> is False
  everywhere, and a dictionary has no entry for a NaN read off the column.
  \<^verbatim>\<open>Series.unique()\<close> keeps the values in their order of first appearance.
\<close>

datatype obs_val = Lab string | Num npfloat

definition py_eq :: "obs_val \<Rightarrow> obs_val \<Rightarrow> bool" where
  "py_eq a b = (a = b \<and> a \<noteq> Num NaN)"

fun unique :: "'a list \<Rightarrow> 'a list" where
  "unique [] = []"
| "unique (x # xs) = x # unique (filter (\<lambda>y. y \<noteq> x) xs)"

definition eq_mask :: "obs_val list \<Rightarrow> obs_val \<Rightarrow> bool list" where
  "eq_mask col g = map (\<lambda>v. py_eq v g) col"

datatype error =
  ValueError string | KeyError obs_val | AttributeError | AssertionError | IndexError

type_synonym score_dict = "(obs_val \<times> npfloat) list"

text \<open>
  A dictionary is the list of its items in insertion order; \<^verbatim>\<open>d[k] = v\<close> is
  \<^const>\<open>AList.update\<close>. \<open>dict_get\<close> is \<^verbatim>\<open>d[c]\<close> for a key \<open>c\<close> read off a column.
\<close>

definition dict_get :: "score_dict \<Rightarrow> obs_val \<Rightarrow> error + npfloat" where
  "dict_get d c =
     (if c = Num NaN then Inl (KeyError c)
      else case map_of d c of None \<Rightarrow> Inl (KeyError c) | Some v \<Rightarrow> Inr v)"

subsection \<open>Indexing with a boolean mask\<close>

text \<open>
  Boolean-mask row selection \<^verbatim>\<open>M[mask, :]\<close>, and the masked assignment
  \<^verbatim>\<open>arr[mask] = v\<close>. NumPy raises \<^verbatim>\<open>IndexError\<close> when the mask is not as long as the
  array; for a mask of the right length, \<open>masked_rows\<close> are the rows at the positions
  where the mask holds.
\<close>

definition masked_rows :: "bool list \<Rightarrow> 'a list \<Rightarrow> 'a list" where
  "masked_rows msk xs = map snd (filter fst (zip msk xs))"

definition select :: "bool list \<Rightarrow> 'a list \<Rightarrow> error + 'a list" where
  "select msk xs =
     (if length msk \<noteq> length xs then Inl IndexError else Inr (masked_rows msk xs))"

definition mask_assign :: "'a list \<Rightarrow> bool list \<Rightarrow> 'a \<Rightarrow> error + 'a list" where
  "mask_assign arr msk v =
     (if length msk \<noteq> length arr then Inl IndexError
      else Inr (map (\<lambda>(a, m). if m then v else a) (zip arr msk)))"

subsection \<open>The annotated data matrix\<close>

text \<open>
  The fields of \<^verbatim>\<open>AnnData\<close> that the module reads: the number of cells
  \<^verbatim>\<open>adata.shape[0]\<close>, the primary matrix \<^verbatim>\<open>adata.X\<close>, \<^verbatim>\<open>adata.raw\<close>, the layers,
  \<^verbatim>\<open>adata.obsm\<close> and the per-cell table \<^verbatim>\<open>adata.obs\<close>. A sparse matrix is identified
  with its dense content, so that \<^verbatim>\<open>X.todense()\<close> changes nothing.
\<close>

record anndata =
  n_obs :: nat
  X :: matrix
  raw :: "matrix option"
  layers :: "string \<rightharpoonup> matrix"
  obsm :: "string \<rightharpoonup> matrix"
  obs :: "string \<rightharpoonup> obs_val list"

text \<open>
  \<^verbatim>\<open>AnnData\<close> keeps every matrix and every column at \<open>n_obs\<close> rows. The maps are
  finite in any dataset; nothing below depends on it.
\<close>

definition wf_anndata :: "anndata \<Rightarrow> bool" where
  "wf_anndata ad =
     (length (X ad) = n_obs ad
      \<and> (\<forall>M. raw ad = Some M \<longrightarrow> length M = n_obs ad)
      \<and> (\<forall>k M. layers ad k = Some M \<longrightarrow> length M = n_obs ad)
      \<and> (\<forall>k M. obsm ad k = Some M \<longrightarrow> length M = n_obs ad)
      \<and> (\<forall>k col. obs ad k = Some col \<longrightarrow> length col = n_obs ad))"

text \<open>
  The view \<^verbatim>\<open>adata[msk, :]\<close>. \<^verbatim>\<open>AnnData\<close> raises \<^verbatim>\<open>IndexError\<close> for a mask that is
  not as long as the dataset has cells. A view holds no data of its own: it is the
  parent and the mask; its number of cells \<^verbatim>\<open>shape[0]\<close> is the number of rows that the
  mask selects, and a part of the view (\<^verbatim>\<open>X\<close>, \<^verbatim>\<open>raw\<close>, a layer, an entry of \<^verbatim>\<open>obsm\<close>)
  is that part of the parent, looked up there, at the rows of the mask.
\<close>

record view =
  parent :: anndata
  row_mask :: "bool list"

definition row_subset :: "anndata \<Rightarrow> bool list \<Rightarrow> error + view" where
  "row_subset ad msk =
     (if length msk \<noteq> n_obs ad then Inl IndexError
      else Inr \<lparr> parent = ad, row_mask = msk \<rparr>)"

definition view_n_obs :: "view \<Rightarrow> nat" where
  "view_n_obs v = length (filter id (row_mask v))"

definition view_part :: "view \<Rightarrow> (anndata \<Rightarrow> error + matrix) \<Rightarrow> error + matrix" where
  "view_part v part =
     (case part (parent v) of Inl e \<Rightarrow> Inl e | Inr P \<Rightarrow> select (row_mask v) P)"

subsection \<open>cnv\_score\<close>

definition cnv_leiden_msg :: string where
  "cnv_leiden_msg = ''`cnv_leiden` not found in `adata.obs`. Did you run `tl.leiden`?''"

text \<open>
  The dictionary comprehension of lines 63 to 68: for every cluster, in order, the
  representation \<^verbatim>\<open>adata.obsm[f"X_{use_rep}"]\<close> is looked up, restricted to the rows of
  the cluster, and averaged.
\<close>

fun cluster_scores ::
  "anndata \<Rightarrow> string \<Rightarrow> obs_val list \<Rightarrow> obs_val list \<Rightarrow> score_dict \<Rightarrow> error + score_dict"
where
  "cluster_scores ad use_rep col [] d = Inr d"
| "cluster_scores ad use_rep col (cluster # rest) d =
     (case obsm ad (''X_'' @ use_rep) of
        None \<Rightarrow> Inl (KeyError (Lab (''X_'' @ use_rep)))
      | Some M \<Rightarrow>
          (case select (eq_mask col cluster) M of
             Inl e \<Rightarrow> Inl e
           | Inr rows \<Rightarrow>
               cluster_scores ad use_rep col rest (AList.update cluster (mean_abs rows) d)))"

text \<open>Line 71: \<^verbatim>\<open>[cluster_score[c] for c in adata.obs[groupby]]\<close>.\<close>

fun score_array :: "score_dict \<Rightarrow> obs_val list \<Rightarrow> error + npfloat list" where
  "score_array d [] = Inr []"
| "score_array d (c # cs) =
     (case dict_get d c of
        Inl e \<Rightarrow> Inl e
      | Inr v \<Rightarrow> (case score_array d cs of Inl e \<Rightarrow> Inl e | Inr vs \<Rightarrow> Inr (v # vs)))"

text \<open>
  A call returns the raised error or the returned value (\<open>None\<close>, or the dictionary),
  together with the dataset as the call leaves it. The argument \<^verbatim>\<open>obs_key\<close> of
  \<^verbatim>\<open>cnv_score\<close> replaces \<^verbatim>\<open>groupby\<close> when it is given; the \<^verbatim>\<open>FutureWarning\<close> that
  comes with it is not part of the outcome.
\<close>

type_synonym outcome = "(error + score_dict option) \<times> anndata"

definition cnv_score ::
  "anndata \<Rightarrow> string \<Rightarrow> string \<Rightarrow> string \<Rightarrow> bool \<Rightarrow> string option \<Rightarrow> outcome"
where
  "cnv_score ad groupby use_rep key_added inplace obs_key =
     (let groupby = (case obs_key of Some k \<Rightarrow> k | None \<Rightarrow> groupby)
      in if obs ad groupby = None \<and> groupby = ''cnv_leiden''
         then (Inl (ValueError cnv_leiden_msg), ad)
         else case obs ad groupby of
                None \<Rightarrow> (Inl (KeyError (Lab groupby)), ad)
              | Some col \<Rightarrow>
                  (case cluster_scores ad use_rep col (unique col) [] of
                     Inl e \<Rightarrow> (Inl e, ad)
                   | Inr cluster_score \<Rightarrow>
                       if inplace
                       then (case score_array cluster_score col of
                               Inl e \<Rightarrow> (Inl e, ad)
                             | Inr arr \<Rightarrow>
                                 (Inr None,
                                  ad\<lparr>obs := (obs ad)(key_added \<mapsto> map Num arr)\<rparr>))
                       else (Inr (Some cluster_score), ad)))"

text \<open>The defaults of the keyword arguments of \<^verbatim>\<open>cnv_score\<close> (lines 13 to 18).\<close>

definition cnv_score_groupby_default :: string where
  "cnv_score_groupby_default = ''cnv_leiden''"

definition cnv_score_use_rep_default :: string where
  "cnv_score_use_rep_default = ''cnv''"

definition cnv_score_key_added_default :: string where
  "cnv_score_key_added_default = ''cnv_score''"

subsection \<open>ithgex\<close>

text \<open>
  Modelled from the spec: \<^verbatim>\<open>_choose_mtx_rep\<close> of \<^verbatim>\<open>infercnvpy/_util.py\<close>, which is
  imported by the module and is not part of the sources at hand. The specification
  gives the precedence "layer, then raw or primary per flag, then default", and the
  documentation of \<^verbatim>\<open>use_raw\<close> in \<^verbatim>\<open>ithgex\<close> gives the default: \<^verbatim>\<open>.raw\<close> if available,
  \<^verbatim>\<open>.X\<close> otherwise. A layer that does not exist is a failed lookup; asking for
  \<^verbatim>\<open>.raw\<close> of a dataset without one is an attribute error. The module calls the
  function on a view, which is \<open>view_part\<close> of this choice.
\<close>

definition choose_mtx_rep :: "anndata \<Rightarrow> bool option \<Rightarrow> string option \<Rightarrow> error + matrix" where
  "choose_mtx_rep ad use_raw layer =
     (case layer of
        Some l \<Rightarrow> (case layers ad l of None \<Rightarrow> Inl (KeyError (Lab l)) | Some M \<Rightarrow> Inr M)
      | None \<Rightarrow>
          (case use_raw of
             Some True \<Rightarrow> (case raw ad of None \<Rightarrow> Inl AttributeError | Some M \<Rightarrow> Inr M)
           | Some False \<Rightarrow> Inr (X ad)
           | None \<Rightarrow> (case raw ad of None \<Rightarrow> Inr (X ad) | Some M \<Rightarrow> Inr M)))"

text \<open>
  The \<^verbatim>\<open>assert\<close> of lines 138 to 141, and of lines 208 to 211: the shape of the
  correlation matrix is compared with \<open>(n, n)\<close>, \<open>n\<close> the number of cells of the view.
\<close>

definition check_pcorr :: "ndarray \<Rightarrow> nat \<Rightarrow> error + ndarray" where
  "check_pcorr pcorr n = (if shape pcorr \<noteq> [n, n] then Inl AssertionError else Inr pcorr)"

text \<open>
  The loop of lines 130 to 143. The dictionary \<open>d\<close> is the local \<^verbatim>\<open>ithgex\<close>; a group
  whose matrix has at most one row is passed over by \<^verbatim>\<open>continue\<close>.
\<close>

fun ithgex_loop ::
  "anndata \<Rightarrow> obs_val list \<Rightarrow> bool option \<Rightarrow> string option \<Rightarrow> obs_val list \<Rightarrow> score_dict
     \<Rightarrow> error + score_dict"
where
  "ithgex_loop ad col use_raw layer [] d = Inr d"
| "ithgex_loop ad col use_raw layer (grp # rest) d =
     (case row_subset ad (eq_mask col grp) of
        Inl e \<Rightarrow> Inl e
      | Inr tmp_adata \<Rightarrow>
          (case view_part tmp_adata (\<lambda>a. choose_mtx_rep a use_raw layer) of
             Inl e \<Rightarrow> Inl e
           | Inr M \<Rightarrow>
               if length M \<le> 1 then ithgex_loop ad col use_raw layer rest d
               else (case check_pcorr (corrcoef M) (view_n_obs tmp_adata) of
                       Inl e \<Rightarrow> Inl e
                     | Inr pcorr \<Rightarrow>
                         ithgex_loop ad col use_raw layer rest
                           (AList.update grp (iqr pcorr) d))))"

text \<open>
  \<^verbatim>\<open>np.empty(n)\<close> hands out \<open>n\<close> slots with whatever the memory holds; \<open>mem\<close> is that
  content, slot by slot.
\<close>

definition np_empty :: "(nat \<Rightarrow> npfloat) \<Rightarrow> nat \<Rightarrow> npfloat list" where
  "np_empty mem n = map mem [0..<n]"

text \<open>
  The loop of lines 147 and 148, which is the loop of lines 217 and 218 with other
  names: for every group, in order, the group's score is read from the dictionary and
  written to the positions of the group's cells.
\<close>

fun broadcast ::
  "score_dict \<Rightarrow> obs_val list \<Rightarrow> obs_val list \<Rightarrow> npfloat list \<Rightarrow> error + npfloat list"
where
  "broadcast d col [] arr = Inr arr"
| "broadcast d col (grp # rest) arr =
     (case map_of d grp of
        None \<Rightarrow> Inl (KeyError grp)
      | Some v \<Rightarrow>
          (case mask_assign arr (eq_mask col grp) v of
             Inl e \<Rightarrow> Inl e
           | Inr arr' \<Rightarrow> broadcast d col rest arr'))"

definition ithgex ::
  "(nat \<Rightarrow> npfloat) \<Rightarrow> anndata \<Rightarrow> string \<Rightarrow> bool option \<Rightarrow> string option \<Rightarrow> bool \<Rightarrow> string
     \<Rightarrow> outcome"
where
  "ithgex mem ad groupby use_raw layer inplace key_added =
     (case obs ad groupby of
        None \<Rightarrow> (Inl (KeyError (Lab groupby)), ad)
      | Some col \<Rightarrow>
          (let groups = unique col
           in case ithgex_loop ad col use_raw layer groups [] of
                Inl e \<Rightarrow> (Inl e, ad)
              | Inr d \<Rightarrow>
                  if inplace
                  then (case broadcast d col groups (np_empty mem (n_obs ad)) of
                          Inl e \<Rightarrow> (Inl e, ad)
                        | Inr ithgex_obs \<Rightarrow>
                            (Inr None,
                             ad\<lparr>obs := (obs ad)(key_added \<mapsto> map Num ithgex_obs)\<rparr>))
                  else (Inr (Some d), ad)))"

definition ithgex_key_added_default :: string where
  "ithgex_key_added_default = ''ithgex''"

subsection \<open>ithcna\<close>

text \<open>The lookup \<^verbatim>\<open>obsm[use_rep]\<close>; the module makes it on a view.\<close>

definition obsm_rep :: "string \<Rightarrow> anndata \<Rightarrow> error + matrix" where
  "obsm_rep use_rep ad =
     (case obsm ad use_rep of None \<Rightarrow> Inl (KeyError (Lab use_rep)) | Some M \<Rightarrow> Inr M)"

text \<open>The loop of lines 200 to 213, with \<^verbatim>\<open>X = tmp_adata.obsm[use_rep]\<close>.\<close>

fun ithcna_loop ::
  "anndata \<Rightarrow> obs_val list \<Rightarrow> string \<Rightarrow> obs_val list \<Rightarrow> score_dict \<Rightarrow> error + score_dict"
where
  "ithcna_loop ad col use_rep [] d = Inr d"
| "ithcna_loop ad col use_rep (grp # rest) d =
     (case row_subset ad (eq_mask col grp) of
        Inl e \<Rightarrow> Inl e
      | Inr tmp_adata \<Rightarrow>
          (case view_part tmp_adata (obsm_rep use_rep) of
             Inl e \<Rightarrow> Inl e
           | Inr M \<Rightarrow>
               if length M \<le> 1 then ithcna_loop ad col use_rep rest d
               else (case check_pcorr (corrcoef M) (view_n_obs tmp_adata) of
                       Inl e \<Rightarrow> Inl e
                     | Inr pcorr \<Rightarrow>
                         ithcna_loop ad col use_rep rest
                           (AList.update grp (iqr pcorr) d))))"

definition ithcna ::
  "(nat \<Rightarrow> npfloat) \<Rightarrow> anndata \<Rightarrow> string \<Rightarrow> string \<Rightarrow> string \<Rightarrow> bool \<Rightarrow> outcome"
where
  "ithcna mem ad groupby use_rep key_added inplace =
     (case obs ad groupby of
        None \<Rightarrow> (Inl (KeyError (Lab groupby)), ad)
      | Some col \<Rightarrow>
          (let groups = unique col
           in case ithcna_loop ad col use_rep groups [] of
                Inl e \<Rightarrow> (Inl e, ad)
              | Inr d \<Rightarrow>
                  if inplace
                  then (case broadcast d col groups (np_empty mem (n_obs ad)) of
                          Inl e \<Rightarrow> (Inl e, ad)
                        | Inr ithcna_obs \<Rightarrow>
                            (Inr None,
                             ad\<lparr>obs := (obs ad)(key_added \<mapsto> map Num ithcna_obs)\<rparr>))
                  else (Inr (Some d), ad)))"

definition ithcna_use_rep_default :: string where
  "ithcna_use_rep_default = ''X_cnv''"

definition ithcna_key_added_default :: string where
  "ithcna_key_added_default = ''ithgex''"

subsection \<open>The algorithm of ithgex with the source of the matrix left open\<close>

text \<open>
  The specification describes \<^verbatim>\<open>ithcna\<close> as the algorithm of \<^verbatim>\<open>ithgex\<close> with another
  source for the matrix. \<open>ith_spec\<close> is that description, written once, with the
  source as a parameter: for each group, the rows of the group are taken from the
  chosen matrix; a group of at most one cell is skipped; the correlation matrix must be
  (group size) x (group size); the score is the interquartile range over all of its
  entries; the scores are written to the dataset or returned.
\<close>

fun ith_spec_loop ::
  "(anndata \<Rightarrow> error + matrix) \<Rightarrow> anndata \<Rightarrow> obs_val list \<Rightarrow> obs_val list \<Rightarrow> score_dict
     \<Rightarrow> error + score_dict"
where
  "ith_spec_loop source ad col [] d = Inr d"
| "ith_spec_loop source ad col (grp # rest) d =
     (case row_subset ad (eq_mask col grp) of
        Inl e \<Rightarrow> Inl e
      | Inr cells \<Rightarrow>
          (case view_part cells source of
             Inl e \<Rightarrow> Inl e
           | Inr M \<Rightarrow>
               if length M \<le> 1 then ith_spec_loop source ad col rest d
               else (case check_pcorr (corrcoef M) (view_n_obs cells) of
                       Inl e \<Rightarrow> Inl e
                     | Inr pcorr \<Rightarrow>
                         ith_spec_loop source ad col rest (AList.update grp (iqr pcorr) d))))"

definition ith_spec ::
  "(anndata \<Rightarrow> error + matrix) \<Rightarrow> (nat \<Rightarrow> npfloat) \<Rightarrow> anndata \<Rightarrow> string \<Rightarrow> string \<Rightarrow> bool
     \<Rightarrow> outcome"
where
  "ith_spec source mem ad groupby key_added inplace =
     (case obs ad groupby of
        None \<Rightarrow> (Inl (KeyError (Lab groupby)), ad)
      | Some col \<Rightarrow>
          (case ith_spec_loop source ad col (unique col) [] of
             Inl e \<Rightarrow> (Inl e, ad)
           | Inr d \<Rightarrow>
               if inplace
               then (case broadcast d col (unique col) (np_empty mem (n_obs ad)) of
                       Inl e \<Rightarrow> (Inl e, ad)
                     | Inr scores \<Rightarrow>
                         (Inr None, ad\<lparr>obs := (obs ad)(key_added \<mapsto> map Num scores)\<rparr>))
               else (Inr (Some d), ad)))"

text \<open>The number of cells of a group: the rows that the mask of the group selects.\<close>

definition group_size :: "obs_val list \<Rightarrow> obs_val \<Rightarrow> nat" where
  "group_size col g = length (filter id (eq_mask col g))"

subsection \<open>Notions of the claims\<close>

text \<open>
  All entries of the full pairwise correlation matrix of the rows of \<open>M\<close>, row by row:
  every ordered pair of rows, the pairs of a row with itself included.
\<close>

definition full_corr :: "matrix \<Rightarrow> npfloat list" where
  "full_corr M = concat (map (\<lambda>u. map (\<lambda>v. corr_entry u v) M) M)"

text \<open>
  A column of scores is constant on the groups of a column of labels: it is as long as
  the column of labels, and two cells with the same label have the same score.
\<close>

definition group_constant :: "obs_val list \<Rightarrow> obs_val list \<Rightarrow> bool" where
  "group_constant col scores =
     (length scores = length col
      \<and> (\<forall>i<length col. \<forall>j<length col. col ! i = col ! j \<longrightarrow> scores ! i = scores ! j))"

subsection \<open>Datasets for the concrete cases\<close>

text \<open>
  The scenario of the specification: four cells in the groups A, A, B, B with the rows
  (0.1, -0.2), (0.3, -0.1), (1, 1), (1, 1) as CNV representation.
\<close>

definition ex_cnv :: anndata where
  "ex_cnv =
     \<lparr> n_obs = 4,
       X = [[0], [0], [0], [0]],
       raw = None,
       layers = Map.empty,
       obsm = [''X_cnv'' \<mapsto> [[1 / 10, - 2 / 10], [3 / 10, - 1 / 10], [1, 1], [1, 1]]],
       obs = [''cnv_leiden'' \<mapsto> [Lab ''A'', Lab ''A'', Lab ''B'', Lab ''B'']] \<rparr>"

text \<open>The same cells without any clustering in \<^verbatim>\<open>obs\<close>.\<close>

definition ex_unclustered :: anndata where
  "ex_unclustered = ex_cnv\<lparr>obs := Map.empty\<rparr>"

text \<open>
  Four cells in two groups of two, with an expression matrix and a CNV representation
  whose rows have variance 4, so that every correlation is a rational number.
\<close>

definition ex_ith :: anndata where
  "ex_ith =
     \<lparr> n_obs = 4,
       X = [[0, 2, 4], [4, 2, 0], [0, 2, 4], [0, 2, 4]],
       raw = None,
       layers = Map.empty,
       obsm = [''X_cnv'' \<mapsto> [[0, 2, 4], [0, 4, 2], [0, 2, 4], [4, 2, 0]]],
       obs = [''patient'' \<mapsto> [Lab ''A'', Lab ''A'', Lab ''B'', Lab ''B'']] \<rparr>"

text \<open>Three cells; the group B has a single cell.\<close>

definition ex_single :: anndata where
  "ex_single =
     \<lparr> n_obs = 3,
       X = [[0, 2, 4], [4, 2, 0], [0, 2, 4]],
       raw = None,
       layers = Map.empty,
       obsm = [''X_cnv'' \<mapsto> [[0, 2, 4], [0, 4, 2], [4, 2, 0]]],
       obs = [''patient'' \<mapsto> [Lab ''A'', Lab ''A'', Lab ''B'']] \<rparr>"

text \<open>The dataset \<open>ex_ith\<close> with its CNV representation stored as a layer as well.\<close>

definition ex_layered :: anndata where
  "ex_layered = ex_ith\<lparr>layers := obsm ex_ith\<rparr>"

text \<open>The memory that \<^verbatim>\<open>np.empty\<close> finds in the concrete cases.\<close>

definition ex_mem :: "nat \<Rightarrow> npfloat" where
  "ex_mem i = Fin (real i + 42)"

section \<open>Properties\<close>

subsection \<open>Evaluating a concrete case\<close>

lemma upt_0_4: "[0..<4] = [0, 1, 2, 3::nat]"
  by code_simp

text \<open>The definitions that a concrete case unfolds.\<close>

lemmas eval_defs =
  cnv_score_def ithgex_def ithcna_def Let_def eq_mask_def py_eq_def select_def masked_rows_def
  mean_abs_def dict_get_def row_subset_def view_part_def view_n_obs_def check_pcorr_def
  obsm_rep_def choose_mtx_rep_def np_empty_def mask_assign_def
  iqr_def percentile_def percentile_real_def corr_entry_def covar_def center_def
  row_mean_def clip_def

subsection \<open>Lists, masks and group sizes\<close>

lemma unique_set [simp]: "set (unique xs) = set xs"
  by (induction xs rule: unique.induct) auto

lemma unique_distinct [simp]: "distinct (unique xs)"
  by (induction xs rule: unique.induct) auto

lemma update_fresh: "k \<notin> fst ` set d \<Longrightarrow> AList.update k v d = d @ [(k, v)]"
  by (induction d) auto

lemma map_of_graph: "map_of (map (\<lambda>g. (g, f g)) xs) g = (if g \<in> set xs then Some (f g) else None)"
  by (induction xs) auto

lemma length_masked_rows:
  "length msk = length xs \<Longrightarrow> length (masked_rows msk xs) = length (filter id msk)"
  unfolding masked_rows_def by (induction msk xs rule: list_induct2) auto

lemma select_Inr: "length msk = length xs \<Longrightarrow> select msk xs = Inr (masked_rows msk xs)"
  by (simp add: select_def)

lemma select_InrD:
  "select msk xs = Inr ys \<Longrightarrow> length msk = length xs \<and> ys = masked_rows msk xs"
  by (auto simp: select_def split: if_splits)

lemma select_Inl: "select msk xs = Inl e \<Longrightarrow> length msk \<noteq> length xs \<and> e = IndexError"
  by (auto simp: select_def split: if_splits)

lemma length_eq_mask [simp]: "length (eq_mask col g) = length col"
  by (simp add: eq_mask_def)

lemma shape_corrcoef: "2 \<le> length M \<Longrightarrow> shape (corrcoef M) = [length M, length M]"
proof -
  assume "2 \<le> length M"
  then obtain a b rest where M: "M = a # b # rest"
    by (cases M; cases "tl M") auto
  show ?thesis unfolding M by simp
qed

lemma shape_corrcoef_small: "length M \<ge> 2 \<Longrightarrow> shape (corrcoef M) = [n, n] \<Longrightarrow> n = length M"
  by (simp add: shape_corrcoef)

lemma check_pcorr_ok: "2 \<le> length M \<Longrightarrow> check_pcorr (corrcoef M) (length M) = Inr (corrcoef M)"
  by (simp add: check_pcorr_def shape_corrcoef)

lemma check_pcorr_Inr: "check_pcorr pcorr n = Inr p \<Longrightarrow> p = pcorr \<and> shape pcorr = [n, n]"
  by (auto simp: check_pcorr_def split: if_splits)

lemma group_size_filter: "group_size col g = length (filter (\<lambda>v. py_eq v g) col)"
  by (simp add: group_size_def eq_mask_def filter_map comp_def)

lemma group_size_NaN [simp]: "group_size col (Num NaN) = 0"
  by (induction col) (auto simp: group_size_filter py_eq_def)

lemma length_group_rows:
  "length M = length col \<Longrightarrow> length (masked_rows (eq_mask col c) M) = group_size col c"
  by (simp add: length_masked_rows group_size_def)

subsection \<open>Views\<close>

lemma row_subset_Inr:
  "length col = n_obs ad
     \<Longrightarrow> row_subset ad (eq_mask col g) = Inr \<lparr> parent = ad, row_mask = eq_mask col g \<rparr>"
  by (simp add: row_subset_def)

lemma row_subset_InrD:
  "row_subset ad msk = Inr v \<Longrightarrow> length msk = n_obs ad \<and> v = \<lparr> parent = ad, row_mask = msk \<rparr>"
  by (auto simp: row_subset_def split: if_splits)

lemma row_subset_Inl: "row_subset ad msk = Inl e \<Longrightarrow> length msk \<noteq> n_obs ad \<and> e = IndexError"
  by (auto simp: row_subset_def split: if_splits)

lemma view_n_obs_group: "view_n_obs \<lparr> parent = ad, row_mask = eq_mask col g \<rparr> = group_size col g"
  by (simp add: view_n_obs_def group_size_def)

lemma view_part_group:
  "source ad = Inr P \<Longrightarrow> length P = length col
     \<Longrightarrow> view_part \<lparr> parent = ad, row_mask = eq_mask col g \<rparr> source
           = Inr (masked_rows (eq_mask col g) P)"
  by (simp add: view_part_def select_Inr)

lemma view_part_InrD:
  "view_part \<lparr> parent = ad, row_mask = msk \<rparr> source = Inr M
     \<Longrightarrow> \<exists>P. source ad = Inr P \<and> length P = length msk \<and> M = masked_rows msk P"
  by (auto simp: view_part_def dest: select_InrD split: sum.splits)

lemma view_part_Inl:
  "view_part \<lparr> parent = ad, row_mask = msk \<rparr> source = Inl e
     \<Longrightarrow> source ad = Inl e \<or> e = IndexError"
  by (auto simp: view_part_def dest: select_Inl split: sum.splits)

subsection \<open>The correlation matrix\<close>

lemma sum_list_squares_nonneg: "0 \<le> sum_list (map2 (*) xs xs)" for xs :: "real list"
  by (induction xs) auto

lemma covar_self_nonneg: "0 \<le> covar u u"
  by (simp add: covar_def sum_list_squares_nonneg)

lemma corr_entry_diag: "2 \<le> length u \<Longrightarrow> covar u u \<noteq> 0 \<Longrightarrow> corr_entry u u = Fin 1"
proof -
  assume l: "2 \<le> length u" and nz: "covar u u \<noteq> 0"
  with covar_self_nonneg [of u] have pos: "0 < covar u u" by simp
  have "sqrt (covar u u) * sqrt (covar u u) = covar u u"
    using pos by simp
  then have "covar u u / sqrt (covar u u) / sqrt (covar u u) = 1"
    using pos by (simp only: divide_divide_eq_left) simp
  with l nz show ?thesis by (simp add: corr_entry_def clip_def)
qed

lemma flatten_corrcoef:
  "2 \<le> length M \<Longrightarrow> flatten (corrcoef M) = concat (map (\<lambda>u. map (\<lambda>v. corr_entry u v) M) M)"
proof -
  assume "2 \<le> length M"
  then obtain a b rest where M: "M = a # b # rest"
    by (cases M; cases "tl M") auto
  show ?thesis unfolding M by simp
qed

lemma length_concat_rows: "length (concat (map (\<lambda>u. map (f u) M) N)) = length N * length M"
  by (induction N) simp_all

lemma flatten_corrcoef_full: "2 \<le> length M \<Longrightarrow> flatten (corrcoef M) = full_corr M"
  by (simp add: flatten_corrcoef full_corr_def)

lemma length_full_corr: "length (full_corr M) = length M * length M"
  by (simp add: full_corr_def length_concat_rows)

lemma diag_in_full_corr: "u \<in> set M \<Longrightarrow> corr_entry u u \<in> set (full_corr M)"
  by (auto simp: full_corr_def)

subsection \<open>Well-formed datasets and the sources of the matrix\<close>

lemma obsm_rep_Some: "obsm ad use_rep = Some M \<Longrightarrow> obsm_rep use_rep ad = Inr M"
  by (simp add: obsm_rep_def)

lemma wf_obs: "wf_anndata ad \<Longrightarrow> obs ad k = Some col \<Longrightarrow> length col = n_obs ad"
  by (simp add: wf_anndata_def)

lemma wf_obsm: "wf_anndata ad \<Longrightarrow> obsm ad k = Some M \<Longrightarrow> length M = n_obs ad"
  by (simp add: wf_anndata_def)

lemma wf_choose:
  "wf_anndata ad \<Longrightarrow> choose_mtx_rep ad use_raw layer = Inr M \<Longrightarrow> length M = n_obs ad"
  by (auto simp: wf_anndata_def choose_mtx_rep_def split: option.splits bool.splits)

lemma obsm_rep_no_assert: "obsm_rep use_rep a \<noteq> Inl AssertionError"
  by (simp add: obsm_rep_def split: option.splits)

lemma choose_mtx_rep_no_assert: "choose_mtx_rep a use_raw layer \<noteq> Inl AssertionError"
  by (simp add: choose_mtx_rep_def split: option.splits bool.splits)

lemma wf_examples:
  "wf_anndata ex_cnv" "wf_anndata ex_ith" "wf_anndata ex_single" "wf_anndata ex_layered"
  by (auto simp: wf_anndata_def ex_cnv_def ex_ith_def ex_single_def ex_layered_def
           split: if_splits)

subsection \<open>The loops of ithgex and ithcna\<close>

text \<open>
  Both loops are the loop of \<open>ith_spec\<close>; the facts below are proved once, for any
  source of the matrix.
\<close>

lemma ithgex_loop_spec:
  "ithgex_loop ad col use_raw layer gs d
     = ith_spec_loop (\<lambda>a. choose_mtx_rep a use_raw layer) ad col gs d"
  by (induction gs arbitrary: d) (simp_all split: sum.splits)

lemma ithcna_loop_spec:
  "ithcna_loop ad col use_rep gs d = ith_spec_loop (obsm_rep use_rep) ad col gs d"
  by (induction gs arbitrary: d) (simp_all split: sum.splits)

lemma ithgex_spec:
  "ithgex mem ad groupby use_raw layer inplace key_added
     = ith_spec (\<lambda>a. choose_mtx_rep a use_raw layer) mem ad groupby key_added inplace"
  by (simp add: ithgex_def ith_spec_def ithgex_loop_spec Let_def split: option.splits)

lemma ithcna_spec:
  "ithcna mem ad groupby use_rep key_added inplace
     = ith_spec (obsm_rep use_rep) mem ad groupby key_added inplace"
  by (simp add: ithcna_def ith_spec_def ithcna_loop_spec Let_def split: option.splits)

lemma ith_spec_loop_keys:
  "ith_spec_loop source ad col gs d = Inr d' \<Longrightarrow> map_of d' g \<noteq> None
     \<Longrightarrow> map_of d g \<noteq> None \<or> (g \<in> set gs \<and> 2 \<le> group_size col g)"
proof (induction gs arbitrary: d)
  case Nil
  then show ?case by simp
next
  case (Cons a gs)
  from Cons.prems(1) obtain v M where v: "row_subset ad (eq_mask col a) = Inr v"
    and M: "view_part v source = Inr M"
    by (auto split: sum.splits)
  from row_subset_InrD [OF v] have v': "v = \<lparr> parent = ad, row_mask = eq_mask col a \<rparr>"
    by simp
  have n: "view_n_obs v = group_size col a" unfolding v' by (rule view_n_obs_group)
  show ?case
  proof (cases "length M \<le> 1")
    case True
    with Cons.prems v M have "ith_spec_loop source ad col gs d = Inr d'" by simp
    from Cons.IH [OF this Cons.prems(2)] show ?thesis by auto
  next
    case False
    with Cons.prems(1) v M obtain pcorr
      where chk: "check_pcorr (corrcoef M) (view_n_obs v) = Inr pcorr"
        and rest: "ith_spec_loop source ad col gs (AList.update a (iqr pcorr) d) = Inr d'"
      by (auto split: sum.splits)
    from check_pcorr_Inr [OF chk] n
    have sh: "shape (corrcoef M) = [group_size col a, group_size col a]" by simp
    from False sh have "group_size col a = length M"
      using shape_corrcoef_small [of M "group_size col a"] by simp
    with False have big: "2 \<le> group_size col a" by simp
    from Cons.IH [OF rest Cons.prems(2)] big show ?thesis
      by (auto simp: update_conv' split: if_splits)
  qed
qed

lemma ith_spec_loop_closed:
  assumes src: "source ad = Inr P"
    and len: "length P = length col"
    and n: "length col = n_obs ad"
    and "distinct gs" "set gs \<inter> fst ` set d = {}"
  shows "ith_spec_loop source ad col gs d
           = Inr (d @ map (\<lambda>g. (g, iqr (corrcoef (masked_rows (eq_mask col g) P))))
                          (filter (\<lambda>g. 2 \<le> group_size col g) gs))"
  using assms(4,5)
proof (induction gs arbitrary: d)
  case Nil
  then show ?case by simp
next
  case (Cons a gs)
  let ?Ma = "masked_rows (eq_mask col a) P"
  let ?v = "\<lparr> parent = ad, row_mask = eq_mask col a \<rparr>"
  have la: "length ?Ma = group_size col a"
    using len by (rule length_group_rows)
  have v: "row_subset ad (eq_mask col a) = Inr ?v"
    using n by (rule row_subset_Inr)
  have p: "view_part ?v source = Inr ?Ma"
    using src len by (rule view_part_group)
  have k: "view_n_obs ?v = group_size col a"
    by (rule view_n_obs_group)
  show ?case
  proof (cases "2 \<le> group_size col a")
    case False
    with la have small: "length ?Ma \<le> 1" by simp
    from Cons.prems have "distinct gs" "set gs \<inter> fst ` set d = {}" by auto
    from Cons.IH [OF this] False small show ?thesis by (simp add: v p)
  next
    case True
    with la have big: "\<not> length ?Ma \<le> 1" "2 \<le> length ?Ma" by simp_all
    have chk: "check_pcorr (corrcoef ?Ma) (group_size col a) = Inr (corrcoef ?Ma)"
      using check_pcorr_ok [OF big(2)] la by simp
    have "a \<notin> fst ` set d" using Cons.prems by auto
    then have u: "AList.update a (iqr (corrcoef ?Ma)) d = d @ [(a, iqr (corrcoef ?Ma))]"
      by (rule update_fresh)
    have "distinct gs" "set gs \<inter> fst ` set (d @ [(a, iqr (corrcoef ?Ma))]) = {}"
      using Cons.prems by auto
    from Cons.IH [OF this] True big chk show ?thesis
      by (simp add: v p k u)
  qed
qed

lemma ith_spec_loop_no_assert:
  assumes noassert: "source ad \<noteq> Inl AssertionError"
  shows "ith_spec_loop source ad col gs d \<noteq> Inl AssertionError"
proof (induction gs arbitrary: d)
  case Nil
  then show ?case by simp
next
  case (Cons a gs)
  show ?case
  proof (cases "row_subset ad (eq_mask col a)")
    case (Inl e)
    with row_subset_Inl [OF Inl] show ?thesis by simp
  next
    case v: (Inr v)
    from row_subset_InrD [OF v] have v': "v = \<lparr> parent = ad, row_mask = eq_mask col a \<rparr>"
      by simp
    show ?thesis
    proof (cases "view_part v source")
      case (Inl e)
      with view_part_Inl [of ad "eq_mask col a" source e] noassert v'
      have "e \<noteq> AssertionError" by auto
      with v Inl show ?thesis by simp
    next
      case (Inr M)
      with view_part_InrD [of ad "eq_mask col a" source M] v'
      obtain P where P: "length P = length (eq_mask col a)" "M = masked_rows (eq_mask col a) P"
        by auto
      have "length M = view_n_obs v"
        unfolding v' P(2) view_n_obs_def using P(1) by (simp add: length_masked_rows)
      then have "\<not> length M \<le> 1
                   \<Longrightarrow> check_pcorr (corrcoef M) (view_n_obs v) = Inr (corrcoef M)"
        using check_pcorr_ok [of M] by simp
      with v Inr Cons.IH show ?thesis by simp
    qed
  qed
qed

subsection \<open>Writing the scores to the cells\<close>

lemma mask_assign_InrD:
  "mask_assign arr (eq_mask col g) v = Inr arr1
     \<Longrightarrow> length arr = length col \<and> length arr1 = length col
         \<and> (\<forall>i<length col. arr1 ! i = (if py_eq (col ! i) g then v else arr ! i))"
  by (auto simp: mask_assign_def eq_mask_def split: if_splits)

lemma mask_assign_Inl: "mask_assign arr msk v = Inl e \<Longrightarrow> length msk \<noteq> length arr \<and> e = IndexError"
  by (auto simp: mask_assign_def split: if_splits)

lemma mask_assign_total:
  "length arr = length col \<Longrightarrow> \<exists>arr1. mask_assign arr (eq_mask col g) v = Inr arr1"
  by (simp add: mask_assign_def)

lemma broadcast_Inl:
  "broadcast d col gs arr = Inl e
     \<Longrightarrow> (\<exists>g\<in>set gs. map_of d g = None \<and> e = KeyError g) \<or> e = IndexError"
  by (induction gs arbitrary: arr) (auto split: option.splits sum.splits dest: mask_assign_Inl)

lemma broadcast_Inl_key:
  "broadcast d col gs arr = Inl e \<Longrightarrow> length arr = length col
     \<Longrightarrow> \<exists>g\<in>set gs. map_of d g = None \<and> e = KeyError g"
proof (induction gs arbitrary: arr)
  case Nil
  then show ?case by simp
next
  case (Cons a gs)
  show ?case
  proof (cases "map_of d a")
    case None
    with Cons.prems show ?thesis by simp
  next
    case (Some v)
    from mask_assign_total [OF Cons.prems(2)]
    obtain arr1 where m: "mask_assign arr (eq_mask col a) v = Inr arr1" by blast
    from mask_assign_InrD [OF m] have l1: "length arr1 = length col" by simp
    from Cons.prems(1) Some m have "broadcast d col gs arr1 = Inl e" by simp
    from Cons.IH [OF this l1] show ?thesis by auto
  qed
qed

lemma broadcast_Inr_keys:
  "broadcast d col gs arr = Inr arr' \<Longrightarrow> \<forall>g\<in>set gs. map_of d g \<noteq> None"
  by (induction gs arbitrary: arr) (auto split: option.splits sum.splits)

lemma broadcast_total:
  "length arr = length col \<Longrightarrow> \<forall>g\<in>set gs. map_of d g \<noteq> None
     \<Longrightarrow> \<exists>arr'. broadcast d col gs arr = Inr arr'"
proof (induction gs arbitrary: arr)
  case Nil
  then show ?case by simp
next
  case (Cons a gs)
  from Cons.prems(2) obtain v where v: "map_of d a = Some v" by auto
  from mask_assign_total [OF Cons.prems(1)]
  obtain arr1 where m: "mask_assign arr (eq_mask col a) v = Inr arr1" by blast
  from mask_assign_InrD [OF m] have l1: "length arr1 = length col" by simp
  from Cons.prems(2) have "\<forall>g\<in>set gs. map_of d g \<noteq> None" by simp
  from Cons.IH [OF l1 this] v m show ?case by simp
qed

lemma broadcast_Inr:
  "broadcast d col gs arr = Inr arr' \<Longrightarrow> length arr = length col
     \<Longrightarrow> length arr' = length col
         \<and> (\<forall>g\<in>set gs. map_of d g \<noteq> None)
         \<and> (\<forall>i<length col. arr' ! i
               = (if col ! i \<in> set gs \<and> col ! i \<noteq> Num NaN
                  then the (map_of d (col ! i)) else arr ! i))"
proof (induction gs arbitrary: arr)
  case Nil
  then show ?case by simp
next
  case (Cons a gs)
  from Cons.prems(1) obtain v arr1 where v: "map_of d a = Some v"
    and m: "mask_assign arr (eq_mask col a) v = Inr arr1"
    and rest: "broadcast d col gs arr1 = Inr arr'"
    by (auto split: option.splits sum.splits)
  from mask_assign_InrD [OF m] have l1: "length arr1 = length col"
    and n1: "\<And>i. i < length col \<Longrightarrow> arr1 ! i = (if py_eq (col ! i) a then v else arr ! i)"
    by blast+
  note ih = Cons.IH [OF rest l1]
  have "arr' ! i = (if col ! i \<in> set (a # gs) \<and> col ! i \<noteq> Num NaN
                    then the (map_of d (col ! i)) else arr ! i)"
    if i: "i < length col" for i
  proof -
    from ih i have "arr' ! i = (if col ! i \<in> set gs \<and> col ! i \<noteq> Num NaN
                               then the (map_of d (col ! i)) else arr1 ! i)"
      by blast
    moreover have "arr1 ! i = (if py_eq (col ! i) a then v else arr ! i)"
      using i by (rule n1)
    ultimately show ?thesis using v by (auto simp: py_eq_def)
  qed
  with ih v show ?case by auto
qed

lemma ith_spec_mapping:
  assumes "obs ad groupby = Some col"
    and "source ad = Inr P"
    and "length P = length col"
    and "length col = n_obs ad"
  shows "ith_spec source mem ad groupby key_added False
           = (Inr (Some (map (\<lambda>c. (c, iqr (corrcoef (masked_rows (eq_mask col c) P))))
                             (filter (\<lambda>c. 2 \<le> group_size col c) (unique col)))), ad)"
  using assms(1) ith_spec_loop_closed [of source ad P col "unique col" "[]", OF assms(2,3,4)]
  by (simp add: ith_spec_def)

lemma ith_spec_inplace_fail:
  assumes "obs ad groupby = Some col"
    and "source ad = Inr P"
    and "length P = length col"
    and n: "length col = n_obs ad"
    and "c \<in> set col" "group_size col c \<le> 1"
  shows "\<exists>c'\<in>set col. group_size col c' \<le> 1
           \<and> ith_spec source mem ad groupby key_added True = (Inl (KeyError c'), ad)"
proof -
  let ?f = "\<lambda>c. iqr (corrcoef (masked_rows (eq_mask col c) P))"
  let ?d = "map (\<lambda>c. (c, ?f c)) (filter (\<lambda>c. 2 \<le> group_size col c) (unique col))"
  let ?arr = "np_empty mem (n_obs ad)"
  have loop: "ith_spec_loop source ad col (unique col) [] = Inr ?d"
    using ith_spec_loop_closed [of source ad P col "unique col" "[]", OF assms(2,3,4)] by simp
  have key: "map_of ?d g = None \<longleftrightarrow> \<not> (g \<in> set col \<and> 2 \<le> group_size col g)" for g
    by (simp add: map_of_graph)
  have la: "length ?arr = length col" by (simp add: np_empty_def n)
  from assms(6) have "map_of ?d c = None" by (simp add: key)
  with assms(5) have "\<not> (\<forall>g\<in>set (unique col). map_of ?d g \<noteq> None)"
    by auto
  then obtain e where e: "broadcast ?d col (unique col) ?arr = Inl e"
    using broadcast_Inr_keys [of ?d col "unique col" ?arr]
    by (cases "broadcast ?d col (unique col) ?arr") auto
  from broadcast_Inl_key [OF e la]
  obtain g where g: "g \<in> set (unique col)" "map_of ?d g = None" "e = KeyError g"
    by blast
  then have "g \<in> set col" "group_size col g \<le> 1" by (auto simp: key)
  moreover have "ith_spec source mem ad groupby key_added True = (Inl (KeyError g), ad)"
    using assms(1) loop e g(3) by (simp add: ith_spec_def)
  ultimately show ?thesis by blast
qed

lemma ith_spec_group_score:
  assumes col: "obs ad groupby = Some col"
    and src: "source ad = Inr P"
    and len: "length P = length col"
    and n: "length col = n_obs ad"
    and c: "c \<in> set col" "2 \<le> group_size col c"
  shows "\<exists>d. ith_spec source mem ad groupby key_added False = (Inr (Some d), ad)
           \<and> map_of d c
               = Some (np_sub (percentile (full_corr (masked_rows (eq_mask col c) P)) 75)
                              (percentile (full_corr (masked_rows (eq_mask col c) P)) 25))
           \<and> length (full_corr (masked_rows (eq_mask col c) P))
               = group_size col c * group_size col c
           \<and> (\<forall>u\<in>set (masked_rows (eq_mask col c) P).
                 corr_entry u u \<in> set (full_corr (masked_rows (eq_mask col c) P))
                 \<and> (2 \<le> length u \<and> covar u u \<noteq> 0 \<longrightarrow> corr_entry u u = Fin 1))"
proof -
  let ?rows = "masked_rows (eq_mask col c) P"
  define score where "score = (\<lambda>c. iqr (corrcoef (masked_rows (eq_mask col c) P)))"
  define d where
    "d = map (\<lambda>c. (c, score c)) (filter (\<lambda>c. 2 \<le> group_size col c) (unique col))"
  have run: "ith_spec source mem ad groupby key_added False = (Inr (Some d), ad)"
    unfolding d_def score_def by (rule ith_spec_mapping [of ad groupby col source P, OF col src len n])
  have look: "map_of d c = Some (score c)"
    using c unfolding d_def by (simp add: map_of_graph)
  have rows: "length ?rows = group_size col c" using len by (rule length_group_rows)
  with c(2) have "2 \<le> length ?rows" by simp
  then have val: "score c = np_sub (percentile (full_corr ?rows) 75)
                                  (percentile (full_corr ?rows) 25)"
    by (simp add: score_def iqr_def flatten_corrcoef_full)
  have n2: "length (full_corr ?rows) = group_size col c * group_size col c"
    using rows by (simp add: length_full_corr)
  have diag: "\<forall>u\<in>set ?rows. corr_entry u u \<in> set (full_corr ?rows)
                \<and> (2 \<le> length u \<and> covar u u \<noteq> 0 \<longrightarrow> corr_entry u u = Fin 1)"
    by (simp add: corr_entry_diag diag_in_full_corr)
  from run look val n2 diag show ?thesis by (intro exI [of _ d]) simp
qed

lemma ith_spec_inplace_ok:
  assumes "obs ad groupby = Some col"
    and src: "source ad = Inr P"
    and "length P = length col"
    and n: "length col = n_obs ad"
    and big: "\<forall>c\<in>set col. 2 \<le> group_size col c"
  shows "ith_spec source mem ad groupby key_added True
           = (Inr None,
              ad\<lparr>obs := (obs ad)(key_added \<mapsto>
                     map (\<lambda>c. Num (iqr (corrcoef (masked_rows (eq_mask col c) P)))) col)\<rparr>)"
proof -
  define f where "f = (\<lambda>c. iqr (corrcoef (masked_rows (eq_mask col c) P)))"
  define d where "d = map (\<lambda>c. (c, f c)) (filter (\<lambda>c. 2 \<le> group_size col c) (unique col))"
  let ?arr = "np_empty mem (n_obs ad)"
  have loop: "ith_spec_loop source ad col (unique col) [] = Inr d"
    using ith_spec_loop_closed [of source ad P col "unique col" "[]", OF assms(2,3,4)]
    by (simp add: d_def f_def)
  have key: "map_of d g = (if g \<in> set col \<and> 2 \<le> group_size col g then Some (f g) else None)"
    for g unfolding d_def by (simp add: map_of_graph)
  have found: "map_of d g = Some (f g)" if "g \<in> set col" for g
    using that big by (simp add: key)
  have la: "length ?arr = length col" by (simp add: np_empty_def n)
  from found have "\<forall>g\<in>set (unique col). map_of d g \<noteq> None" by simp
  then obtain arr' where b: "broadcast d col (unique col) ?arr = Inr arr'"
    using broadcast_total [OF la] by blast
  note r = broadcast_Inr [OF b la]
  have nonan: "c \<noteq> Num NaN" if "c \<in> set col" for c
  proof
    assume "c = Num NaN"
    with big that have "2 \<le> group_size col (Num NaN)" by blast
    then show False by simp
  qed
  have "arr' = map f col"
  proof (rule nth_equalityI)
    show "length arr' = length (map f col)" using r by simp
  next
    fix i assume "i < length arr'"
    with r have i: "i < length col" by simp
    then have m: "col ! i \<in> set col" by simp
    from r i have "arr' ! i = (if col ! i \<in> set (unique col) \<and> col ! i \<noteq> Num NaN
                                then the (map_of d (col ! i)) else ?arr ! i)" by blast
    with m nonan [OF m] found [OF m] have "arr' ! i = f (col ! i)" by simp
    with i show "arr' ! i = map f col ! i" by simp
  qed
  with assms(1) loop b show ?thesis by (simp add: ith_spec_def comp_def f_def)
qed

lemma ith_spec_True_Inr:
  assumes run: "ith_spec source mem ad groupby key_added True = (Inr r, ad')"
    and col: "obs ad groupby = Some col"
  shows "\<exists>d ss. ith_spec_loop source ad col (unique col) [] = Inr d
           \<and> broadcast d col (unique col) (np_empty mem (n_obs ad)) = Inr ss
           \<and> r = None
           \<and> ad' = ad\<lparr>obs := (obs ad)(key_added \<mapsto> map Num ss)\<rparr>"
proof (cases "ith_spec_loop source ad col (unique col) []")
  case (Inl e)
  with run col show ?thesis by (simp add: ith_spec_def)
next
  case d: (Inr d)
  show ?thesis
  proof (cases "broadcast d col (unique col) (np_empty mem (n_obs ad))")
    case (Inl e)
    with run col d show ?thesis by (simp add: ith_spec_def)
  next
    case (Inr ss)
    with run col d show ?thesis by (simp add: ith_spec_def)
  qed
qed

lemma ith_spec_same_group:
  assumes run: "ith_spec source mem ad groupby key_added True = (Inr r, ad')"
    and col: "obs ad groupby = Some col"
    and n: "length col = n_obs ad"
  shows "\<exists>ss. obs ad' key_added = Some (map Num ss) \<and> length ss = n_obs ad
           \<and> (\<forall>i<n_obs ad. \<forall>j<n_obs ad. col ! i = col ! j \<longrightarrow> ss ! i = ss ! j)"
proof -
  let ?arr = "np_empty mem (n_obs ad)"
  from ith_spec_True_Inr [OF run col]
  obtain d ss where loop: "ith_spec_loop source ad col (unique col) [] = Inr d"
    and b: "broadcast d col (unique col) ?arr = Inr ss"
    and ad': "ad' = ad\<lparr>obs := (obs ad)(key_added \<mapsto> map Num ss)\<rparr>"
    by blast
  have la: "length ?arr = length col" by (simp add: np_empty_def n)
  from broadcast_Inr [OF b la]
  have len: "length ss = length col"
    and keys: "\<And>g. g \<in> set (unique col) \<Longrightarrow> map_of d g \<noteq> None"
    and nth: "\<And>i. i < length col \<Longrightarrow> ss ! i
               = (if col ! i \<in> set (unique col) \<and> col ! i \<noteq> Num NaN
                  then the (map_of d (col ! i)) else ?arr ! i)"
    by blast+
  have val: "ss ! i = the (map_of d (col ! i))" if i: "i < length col" for i
  proof -
    from i have m: "col ! i \<in> set (unique col)" by simp
    from keys [OF m] have found: "map_of d (col ! i) \<noteq> None" .
    have nn: "col ! i \<noteq> Num NaN"
    proof
      assume "col ! i = Num NaN"
      with found have "map_of d (Num NaN) \<noteq> None" by simp
      from ith_spec_loop_keys [OF loop this] show False by simp
    qed
    from nth [OF i] m nn show ?thesis by simp
  qed
  have same: "\<forall>i<n_obs ad. \<forall>j<n_obs ad. col ! i = col ! j \<longrightarrow> ss ! i = ss ! j"
    using val n by simp
  have written: "obs ad' key_added = Some (map Num ss)" unfolding ad' by simp
  have "length ss = n_obs ad" using len n by simp
  with written same show ?thesis by (intro exI [of _ ss] conjI)
qed

lemma ith_spec_True_writes:
  assumes "ith_spec source mem ad groupby key_added True = (Inr r, ad')"
  shows "\<exists>scores. ad' = ad\<lparr>obs := (obs ad)(key_added \<mapsto> scores)\<rparr>"
proof (cases "obs ad groupby")
  case None
  with assms show ?thesis by (simp add: ith_spec_def)
next
  case (Some col)
  from ith_spec_True_Inr [OF assms Some] show ?thesis by blast
qed

lemma ith_spec_no_assert:
  assumes noassert: "source ad \<noteq> Inl AssertionError"
  shows "fst (ith_spec source mem ad groupby key_added inplace) \<noteq> Inl AssertionError"
proof (cases "obs ad groupby")
  case None
  then show ?thesis by (simp add: ith_spec_def)
next
  case (Some col)
  have loop: "ith_spec_loop source ad col (unique col) [] \<noteq> Inl AssertionError"
    using noassert by (rule ith_spec_loop_no_assert)
  show ?thesis
  proof (cases "ith_spec_loop source ad col (unique col) []")
    case (Inl e)
    with loop Some show ?thesis by (simp add: ith_spec_def)
  next
    case d: (Inr d)
    show ?thesis
    proof (cases "broadcast d col (unique col) (np_empty mem (n_obs ad))")
      case (Inl e)
      from broadcast_Inl [OF Inl] have "e \<noteq> AssertionError" by auto
      with Inl Some d show ?thesis by (simp add: ith_spec_def)
    next
      case (Inr ss)
      with Some d show ?thesis by (simp add: ith_spec_def)
    qed
  qed
qed

subsection \<open>The loops of cnv\_score\<close>

lemma cluster_scores_error:
  "cluster_scores ad use_rep col gs d = Inl e
     \<Longrightarrow> e = KeyError (Lab (''X_'' @ use_rep)) \<or> e = IndexError"
  by (induction gs arbitrary: d) (auto split: option.splits sum.splits dest: select_Inl)

lemma score_array_error: "score_array d col = Inl e \<Longrightarrow> \<exists>c. e = KeyError c"
  by (induction col arbitrary: e)
     (auto simp: dict_get_def split: sum.splits option.splits if_splits)

lemma cluster_scores_closed:
  assumes "obsm ad (''X_'' @ use_rep) = Some M" "length M = length col"
    "distinct gs" "set gs \<inter> fst ` set d = {}"
  shows "cluster_scores ad use_rep col gs d =
           Inr (d @ map (\<lambda>c. (c, mean_abs (masked_rows (eq_mask col c) M))) gs)"
  using assms(3,4)
proof (induction gs arbitrary: d)
  case Nil then show ?case by simp
next
  case (Cons g gs)
  have s: "select (eq_mask col g) M = Inr (masked_rows (eq_mask col g) M)"
    using assms(2) by (simp add: select_Inr)
  have "g \<notin> fst ` set d" using Cons.prems by auto
  then have u: "AList.update g (mean_abs (masked_rows (eq_mask col g) M)) d
                  = d @ [(g, mean_abs (masked_rows (eq_mask col g) M))]"
    by (rule update_fresh)
  have "distinct gs"
    "set gs \<inter> fst ` set (d @ [(g, mean_abs (masked_rows (eq_mask col g) M))]) = {}"
    using Cons.prems by auto
  from Cons.IH [OF this] assms(1) show ?case by (simp add: s u)
qed

lemma cluster_scores_index_error:
  "obsm ad (''X_'' @ use_rep) = Some M \<Longrightarrow> length M \<noteq> length col
     \<Longrightarrow> cluster_scores ad use_rep col (g # gs) d = Inl IndexError"
  by (simp add: select_def)

lemma score_array_Inr:
  "score_array d col = Inr arr
     \<Longrightarrow> length arr = length col \<and> (\<forall>i<length col. dict_get d (col ! i) = Inr (arr ! i))"
proof (induction col arbitrary: arr)
  case Nil
  then show ?case by simp
next
  case (Cons c cs)
  from Cons.prems obtain v vs where v: "dict_get d c = Inr v"
    and vs: "score_array d cs = Inr vs" and arr: "arr = v # vs"
    by (auto split: sum.splits)
  from Cons.IH [OF vs] have l: "length vs = length cs"
    and e: "\<And>i. i < length cs \<Longrightarrow> dict_get d (cs ! i) = Inr (vs ! i)" by auto
  have "dict_get d ((c # cs) ! i) = Inr (arr ! i)" if "i < length (c # cs)" for i
    using that v e arr by (cases i) auto
  with l arr show ?case by simp
qed

lemma score_array_closed:
  "(\<And>c. c \<in> set col \<Longrightarrow> c \<noteq> Num NaN \<and> map_of d c = Some (f c))
     \<Longrightarrow> score_array d col = Inr (map f col)"
  by (induction col) (simp_all add: dict_get_def)

lemma cnv_score_closed:
  assumes col: "obs ad (case obs_key of Some k \<Rightarrow> k | None \<Rightarrow> groupby) = Some col"
    and rep: "obsm ad (''X_'' @ use_rep) = Some M"
    and len: "length M = length col \<or> col = []"
  shows "cnv_score ad groupby use_rep key_added False obs_key
           = (Inr (Some (map (\<lambda>c. (c, mean_abs (masked_rows (eq_mask col c) M))) (unique col))),
              ad)"
    and "Num NaN \<notin> set col
           \<Longrightarrow> cnv_score ad groupby use_rep key_added True obs_key
                 = (Inr None,
                    ad\<lparr>obs := (obs ad)(key_added \<mapsto>
                           map (\<lambda>c. Num (mean_abs (masked_rows (eq_mask col c) M))) col)\<rparr>)"
proof -
  define f where "f = (\<lambda>c. mean_abs (masked_rows (eq_mask col c) M))"
  define d where "d = map (\<lambda>c. (c, f c)) (unique col)"
  have loop: "cluster_scores ad use_rep col (unique col) [] = Inr d"
  proof (cases "col = []")
    case True
    then show ?thesis by (simp add: d_def)
  next
    case False
    with len have "length M = length col" by simp
    from cluster_scores_closed [OF rep this, of "unique col" "[]"] show ?thesis
      by (simp add: d_def f_def)
  qed
  have key: "map_of d c = Some (f c)" if "c \<in> set col" for c
    using that unfolding d_def by (simp add: map_of_graph)
  have arr: "score_array d col = Inr (map f col)" if "Num NaN \<notin> set col"
  proof (rule score_array_closed)
    fix c assume "c \<in> set col"
    with that key show "c \<noteq> Num NaN \<and> map_of d c = Some (f c)" by auto
  qed
  have "cnv_score ad groupby use_rep key_added False obs_key = (Inr (Some d), ad)"
    using col loop by (simp add: cnv_score_def Let_def)
  then show "cnv_score ad groupby use_rep key_added False obs_key
           = (Inr (Some (map (\<lambda>c. (c, mean_abs (masked_rows (eq_mask col c) M))) (unique col))),
              ad)"
    by (simp add: d_def f_def)
  assume "Num NaN \<notin> set col"
  from arr [OF this] col loop
  have "cnv_score ad groupby use_rep key_added True obs_key
          = (Inr None, ad\<lparr>obs := (obs ad)(key_added \<mapsto> map Num (map f col))\<rparr>)"
    by (simp add: cnv_score_def Let_def)
  then show "cnv_score ad groupby use_rep key_added True obs_key
                 = (Inr None,
                    ad\<lparr>obs := (obs ad)(key_added \<mapsto>
                           map (\<lambda>c. Num (mean_abs (masked_rows (eq_mask col c) M))) col)\<rparr>)"
    by (simp add: f_def comp_def)
qed

lemma cnv_score_index_error:
  assumes col: "obs ad (case obs_key of Some k \<Rightarrow> k | None \<Rightarrow> groupby) = Some col"
    and rep: "obsm ad (''X_'' @ use_rep) = Some M"
    and len: "length M \<noteq> length col" "col \<noteq> []"
  shows "cnv_score ad groupby use_rep key_added inplace obs_key = (Inl IndexError, ad)"
proof -
  from len(2) obtain g gs where u: "unique col = g # gs" by (cases col) auto
  have "cluster_scores ad use_rep col (unique col) [] = Inl IndexError"
    unfolding u using rep len(1) by (rule cluster_scores_index_error)
  with col show ?thesis by (simp add: cnv_score_def Let_def)
qed

lemma cnv_score_True_Inr:
  assumes run: "cnv_score ad groupby use_rep key_added True None = (Inr r, ad')"
    and col: "obs ad groupby = Some col"
  shows "\<exists>d arr. cluster_scores ad use_rep col (unique col) [] = Inr d
           \<and> score_array d col = Inr arr
           \<and> ad' = ad\<lparr>obs := (obs ad)(key_added \<mapsto> map Num arr)\<rparr>"
proof (cases "cluster_scores ad use_rep col (unique col) []")
  case (Inl e)
  with run col show ?thesis by (simp add: cnv_score_def)
next
  case d: (Inr d)
  show ?thesis
  proof (cases "score_array d col")
    case (Inl e)
    with run col d show ?thesis by (simp add: cnv_score_def)
  next
    case (Inr arr)
    with run col d show ?thesis by (simp add: cnv_score_def)
  qed
qed

lemma cnv_score_same_group:
  assumes run: "cnv_score ad groupby use_rep key_added True None = (Inr r, ad')"
    and col: "obs ad groupby = Some col"
  shows "\<exists>arr. obs ad' key_added = Some (map Num arr) \<and> length arr = length col
           \<and> (\<forall>i<length col. \<forall>j<length col. col ! i = col ! j \<longrightarrow> arr ! i = arr ! j)"
proof -
  from cnv_score_True_Inr [OF run col]
  obtain d arr where arr: "score_array d col = Inr arr"
    and ad': "ad' = ad\<lparr>obs := (obs ad)(key_added \<mapsto> map Num arr)\<rparr>"
    by blast
  from score_array_Inr [OF arr] have l: "length arr = length col"
    and g: "\<And>i. i < length col \<Longrightarrow> dict_get d (col ! i) = Inr (arr ! i)" by blast+
  have same: "arr ! i = arr ! j" if "i < length col" "j < length col" "col ! i = col ! j" for i j
  proof -
    have "Inr (arr ! i) = dict_get d (col ! i)" using g [OF that(1)] by simp
    also have "\<dots> = dict_get d (col ! j)" using that(3) by simp
    also have "\<dots> = Inr (arr ! j)" using g [OF that(2)] .
    finally show ?thesis by simp
  qed
  have written: "obs ad' key_added = Some (map Num arr)" unfolding ad' by simp
  from same have "\<forall>i<length col. \<forall>j<length col. col ! i = col ! j \<longrightarrow> arr ! i = arr ! j"
    by blast
  with written l show ?thesis by (intro exI [of _ arr] conjI)
qed

lemma group_constant_Num:
  assumes len: "length ss = length col"
    and same: "\<forall>i<length col. \<forall>j<length col. col ! i = col ! j \<longrightarrow> ss ! i = ss ! j"
  shows "group_constant col (map Num ss)"
  unfolding group_constant_def
proof (intro conjI allI impI)
  show "length (map Num ss) = length col" using len by simp
next
  fix i j assume i: "i < length col" and j: "j < length col" and eq: "col ! i = col ! j"
  from same i j eq have "ss ! i = ss ! j" by blast
  moreover have "map Num ss ! i = Num (ss ! i)" "map Num ss ! j = Num (ss ! j)"
    using i j len by simp_all
  ultimately show "map Num ss ! i = map Num ss ! j" by simp
qed

section \<open>The claims\<close>

text \<open>
  Claim C1. With the grouping column \<open>col\<close> present and the representation
  \<^verbatim>\<open>adata.obsm["X_" + use_rep]\<close> equal to \<open>M\<close>, a matrix with one row per label,
  \<^verbatim>\<open>cnv_score\<close> returns, for every distinct value \<open>c\<close> of the column in order of first
  appearance, the mean of the absolute values of all entries of the rows of \<open>M\<close> that
  the mask of \<open>c\<close> selects; with \<^verbatim>\<open>inplace=True\<close> and no NaN among the labels every
  cell receives the score of its group. The dataset is otherwise untouched. A matrix
  with another number of rows cannot be indexed by the mask of the first cluster, and
  the call ends with \<^verbatim>\<open>IndexError\<close>.
\<close>

theorem cnv_score_group_mean:
  assumes col: "obs ad (case obs_key of Some k \<Rightarrow> k | None \<Rightarrow> groupby) = Some col"
    and rep: "obsm ad (''X_'' @ use_rep) = Some M"
  shows "(length M = length col \<or> col = []
            \<longrightarrow> cnv_score ad groupby use_rep key_added False obs_key
                  = (Inr (Some (map (\<lambda>c. (c, mean_abs (masked_rows (eq_mask col c) M)))
                                    (unique col))), ad)
                \<and> (Num NaN \<notin> set col
                   \<longrightarrow> cnv_score ad groupby use_rep key_added True obs_key
                        = (Inr None,
                           ad\<lparr>obs := (obs ad)(key_added \<mapsto>
                                  map (\<lambda>c. Num (mean_abs (masked_rows (eq_mask col c) M)))
                                      col)\<rparr>)))
         \<and> (length M \<noteq> length col \<and> col \<noteq> []
            \<longrightarrow> cnv_score ad groupby use_rep key_added inplace obs_key = (Inl IndexError, ad))"
  using cnv_score_closed [OF col rep] cnv_score_index_error [OF col rep] by blast

text \<open>
  The scenario of the specification: group A scores 0.175, group B scores 1, and the
  per-cell column is 0.175, 0.175, 1, 1. With a representation of a single row for the
  four cells, the call raises \<^verbatim>\<open>IndexError\<close>.
\<close>

theorem cnv_score_group_mean_witness:
  "cnv_score ex_cnv ''cnv_leiden'' ''cnv'' ''cnv_score'' False None
     = (Inr (Some [(Lab ''A'', Fin (175 / 1000)), (Lab ''B'', Fin 1)]), ex_cnv)
   \<and> cnv_score ex_cnv ''cnv_leiden'' ''cnv'' ''cnv_score'' True None
     = (Inr None,
        ex_cnv\<lparr>obs := (obs ex_cnv)(''cnv_score'' \<mapsto>
                  [Num (Fin (175 / 1000)), Num (Fin (175 / 1000)), Num (Fin 1), Num (Fin 1)])\<rparr>)
   \<and> cnv_score (ex_cnv\<lparr>obsm := [''X_cnv'' \<mapsto> [[1, 1]]]\<rparr>)
          ''cnv_leiden'' ''cnv'' ''cnv_score'' False None
     = (Inl IndexError, ex_cnv\<lparr>obsm := [''X_cnv'' \<mapsto> [[1, 1]]]\<rparr>)"
proof -
  let ?col = "[Lab ''A'', Lab ''A'', Lab ''B'', Lab ''B'']"
  let ?short = "ex_cnv\<lparr>obsm := [''X_cnv'' \<mapsto> [[1, 1]]]\<rparr>"
  have col: "obs ex_cnv (case None of Some k \<Rightarrow> k | None \<Rightarrow> ''cnv_leiden'') = Some ?col"
    by (simp add: ex_cnv_def)
  have rep: "obsm ex_cnv (''X_'' @ ''cnv'')
               = Some [[1 / 10, - 2 / 10], [3 / 10, - 1 / 10], [1, 1], [1, 1]]"
    by (simp add: ex_cnv_def)
  have col': "obs ?short (case None of Some k \<Rightarrow> k | None \<Rightarrow> ''cnv_leiden'') = Some ?col"
    by (simp add: ex_cnv_def)
  have rep': "obsm ?short (''X_'' @ ''cnv'') = Some [[1, 1]]"
    by simp
  have ok: "cnv_score ex_cnv ''cnv_leiden'' ''cnv'' ''cnv_score'' False None
              = (Inr (Some [(Lab ''A'', Fin (175 / 1000)), (Lab ''B'', Fin 1)]), ex_cnv)
            \<and> cnv_score ex_cnv ''cnv_leiden'' ''cnv'' ''cnv_score'' True None
              = (Inr None,
                 ex_cnv\<lparr>obs := (obs ex_cnv)(''cnv_score'' \<mapsto>
                   [Num (Fin (175 / 1000)), Num (Fin (175 / 1000)), Num (Fin 1), Num (Fin 1)])\<rparr>)"
    using cnv_score_group_mean [OF col rep, of "''cnv_score''"]
    by (simp add: eq_mask_def py_eq_def masked_rows_def mean_abs_def)
  have bad: "cnv_score ?short ''cnv_leiden'' ''cnv'' ''cnv_score'' False None
               = (Inl IndexError, ?short)"
    using cnv_score_group_mean [OF col' rep', of "''cnv_score''" False]
    by simp
  from ok bad show ?thesis by blast
qed

text \<open>
  Claim C2. On a well-formed dataset, for every label \<open>c\<close> of the grouping column with at
  least two cells: if the matrix source is present (the representation for \<^verbatim>\<open>ithcna\<close>,
  the chosen expression matrix for \<^verbatim>\<open>ithgex\<close>), the call with \<^verbatim>\<open>inplace=False\<close>
  returns a dictionary in which the score of \<open>c\<close> is the 75th percentile minus the 25th
  percentile of \<open>full_corr\<close> of the group's rows. That list has (group size) times
  (group size) entries: all entries of the correlation matrix, the entry of each row
  with itself among them, which is 1 for a row of non-zero variance with at least two
  columns.
\<close>

theorem ith_score_is_iqr_of_full_correlation:
  assumes wf: "wf_anndata ad"
    and col: "obs ad groupby = Some col"
    and c: "c \<in> set col" "2 \<le> group_size col c"
  shows "(\<forall>M. obsm ad use_rep = Some M \<longrightarrow>
            (\<exists>d. ithcna mem ad groupby use_rep key_added False = (Inr (Some d), ad)
               \<and> map_of d c
                   = Some (np_sub (percentile (full_corr (masked_rows (eq_mask col c) M)) 75)
                                  (percentile (full_corr (masked_rows (eq_mask col c) M)) 25))
               \<and> length (full_corr (masked_rows (eq_mask col c) M))
                   = group_size col c * group_size col c
               \<and> (\<forall>u\<in>set (masked_rows (eq_mask col c) M).
                     corr_entry u u \<in> set (full_corr (masked_rows (eq_mask col c) M))
                     \<and> (2 \<le> length u \<and> covar u u \<noteq> 0 \<longrightarrow> corr_entry u u = Fin 1))))
       \<and> (\<forall>M. choose_mtx_rep ad use_raw layer = Inr M \<longrightarrow>
            (\<exists>d. ithgex mem ad groupby use_raw layer False key_added = (Inr (Some d), ad)
               \<and> map_of d c
                   = Some (np_sub (percentile (full_corr (masked_rows (eq_mask col c) M)) 75)
                                  (percentile (full_corr (masked_rows (eq_mask col c) M)) 25))
               \<and> length (full_corr (masked_rows (eq_mask col c) M))
                   = group_size col c * group_size col c
               \<and> (\<forall>u\<in>set (masked_rows (eq_mask col c) M).
                     corr_entry u u \<in> set (full_corr (masked_rows (eq_mask col c) M))
                     \<and> (2 \<le> length u \<and> covar u u \<noteq> 0 \<longrightarrow> corr_entry u u = Fin 1))))"
proof (intro conjI allI impI)
  have n: "length col = n_obs ad" using wf col by (rule wf_obs)
  {
    fix M assume cna: "obsm ad use_rep = Some M"
    have l: "length M = length col" using wf_obsm [OF wf cna] n by simp
    show "\<exists>d. ithcna mem ad groupby use_rep key_added False = (Inr (Some d), ad)
               \<and> map_of d c
                   = Some (np_sub (percentile (full_corr (masked_rows (eq_mask col c) M)) 75)
                                  (percentile (full_corr (masked_rows (eq_mask col c) M)) 25))
               \<and> length (full_corr (masked_rows (eq_mask col c) M))
                   = group_size col c * group_size col c
               \<and> (\<forall>u\<in>set (masked_rows (eq_mask col c) M).
                     corr_entry u u \<in> set (full_corr (masked_rows (eq_mask col c) M))
                     \<and> (2 \<le> length u \<and> covar u u \<noteq> 0 \<longrightarrow> corr_entry u u = Fin 1))"
      unfolding ithcna_spec
      by (rule ith_spec_group_score
            [of ad groupby col "obsm_rep use_rep" M c, OF col obsm_rep_Some [OF cna] l n c])
  }
  {
    fix M assume gex: "choose_mtx_rep ad use_raw layer = Inr M"
    have l: "length M = length col" using wf_choose [OF wf gex] n by simp
    show "\<exists>d. ithgex mem ad groupby use_raw layer False key_added = (Inr (Some d), ad)
               \<and> map_of d c
                   = Some (np_sub (percentile (full_corr (masked_rows (eq_mask col c) M)) 75)
                                  (percentile (full_corr (masked_rows (eq_mask col c) M)) 25))
               \<and> length (full_corr (masked_rows (eq_mask col c) M))
                   = group_size col c * group_size col c
               \<and> (\<forall>u\<in>set (masked_rows (eq_mask col c) M).
                     corr_entry u u \<in> set (full_corr (masked_rows (eq_mask col c) M))
                     \<and> (2 \<le> length u \<and> covar u u \<noteq> 0 \<longrightarrow> corr_entry u u = Fin 1))"
      unfolding ithgex_spec
      by (rule ith_spec_group_score
            [of ad groupby col "\<lambda>a. choose_mtx_rep a use_raw layer" M c, OF col gex l n c])
  }
qed

text \<open>
  Group A of \<open>ex_ith\<close>: the correlation matrices are (1, 1/2; 1/2, 1) and
  (1, -1; -1, 1), the scores 1/2 and 2.
\<close>

theorem ith_score_is_iqr_of_full_correlation_witness:
  "(\<exists>d. ithcna ex_mem ex_ith ''patient'' ''X_cnv'' ''ithcna'' False = (Inr (Some d), ex_ith)
       \<and> map_of d (Lab ''A'') = Some (Fin (1 / 2)))
   \<and> (\<exists>d. ithgex ex_mem ex_ith ''patient'' None None False ''ithgex'' = (Inr (Some d), ex_ith)
       \<and> map_of d (Lab ''A'') = Some (Fin 2))
   \<and> full_corr [[0, 2, 4], [0, 4, 2]] = [Fin 1, Fin (1 / 2), Fin (1 / 2), Fin 1]
   \<and> full_corr [[0, 2, 4], [4, 2, 0]] = [Fin 1, Fin (- 1), Fin (- 1), Fin 1]"
proof -
  let ?col = "[Lab ''A'', Lab ''A'', Lab ''B'', Lab ''B'']"
  let ?Mc = "[[0, 2, 4], [0, 4, 2], [0, 2, 4], [4, 2, 0 :: real]]"
  let ?Mg = "[[0, 2, 4], [4, 2, 0], [0, 2, 4], [0, 2, 4 :: real]]"
  have col: "obs ex_ith ''patient'' = Some ?col" by (simp add: ex_ith_def)
  have cna: "obsm ex_ith ''X_cnv'' = Some ?Mc" by (simp add: ex_ith_def)
  have gex: "choose_mtx_rep ex_ith None None = Inr ?Mg"
    by (simp add: ex_ith_def choose_mtx_rep_def)
  have a: "Lab ''A'' \<in> set ?col" by simp
  have sa: "2 \<le> group_size ?col (Lab ''A'')"
    by (simp add: group_size_def eq_mask_def py_eq_def)
  have sc: "masked_rows (eq_mask ?col (Lab ''A'')) ?Mc = [[0, 2, 4], [0, 4, 2]]"
    by (simp add: masked_rows_def eq_mask_def py_eq_def)
  have sg: "masked_rows (eq_mask ?col (Lab ''A'')) ?Mg = [[0, 2, 4], [4, 2, 0]]"
    by (simp add: masked_rows_def eq_mask_def py_eq_def)
  have fc: "full_corr [[0, 2, 4], [0, 4, 2]] = [Fin 1, Fin (1 / 2), Fin (1 / 2), Fin 1]"
    by (simp add: full_corr_def corr_entry_def covar_def center_def row_mean_def clip_def)
  have fg: "full_corr [[0, 2, 4], [4, 2, 0]] = [Fin 1, Fin (- 1), Fin (- 1), Fin 1]"
    by (simp add: full_corr_def corr_entry_def covar_def center_def row_mean_def clip_def)
  have pc: "np_sub (percentile [Fin 1, Fin (1 / 2), Fin (1 / 2), Fin 1] 75)
                   (percentile [Fin 1, Fin (1 / 2), Fin (1 / 2), Fin 1] 25) = Fin (1 / 2)"
    by (simp add: percentile_def percentile_real_def)
  have pg: "np_sub (percentile [Fin 1, Fin (- 1), Fin (- 1), Fin 1] 75)
                   (percentile [Fin 1, Fin (- 1), Fin (- 1), Fin 1] 25) = Fin 2"
    by (simp add: percentile_def percentile_real_def)
  note t = ith_score_is_iqr_of_full_correlation [OF wf_examples(2) col a sa]
  from t [of "''X_cnv''" ex_mem "''ithcna''", THEN conjunct1, rule_format, OF cna]
  have 1: "\<exists>d. ithcna ex_mem ex_ith ''patient'' ''X_cnv'' ''ithcna'' False
                  = (Inr (Some d), ex_ith) \<and> map_of d (Lab ''A'') = Some (Fin (1 / 2))"
    unfolding sc fc pc by blast
  from t [of _ ex_mem "''ithgex''" None None, THEN conjunct2, rule_format, OF gex]
  have 2: "\<exists>d. ithgex ex_mem ex_ith ''patient'' None None False ''ithgex''
                  = (Inr (Some d), ex_ith) \<and> map_of d (Lab ''A'') = Some (Fin 2)"
    unfolding sg fg pg by blast
  from 1 2 fc fg show ?thesis by blast
qed

text \<open>
  Claim C3. The claim says that a group of at most one cell is skipped without error,
  and that with \<^verbatim>\<open>inplace=True\<close> the cells of the other groups still receive their
  scores. The code skips the group in the first loop, so that the returned dictionary of
  \<^verbatim>\<open>inplace=False\<close> has no entry for it; the second loop then reads
  \<^verbatim>\<open>ithgex[group]\<close> for every group, the skipped one included, and raises
  \<^verbatim>\<open>KeyError\<close>. On \<open>ex_single\<close>, where group B has one cell, no column is written.
\<close>

theorem ith_singleton_group_inplace_raises:
  "ithgex ex_mem ex_single ''patient'' None None False ''ithgex''
     = (Inr (Some [(Lab ''A'', Fin 2)]), ex_single)
   \<and> ithcna ex_mem ex_single ''patient'' ''X_cnv'' ''ithcna'' False
     = (Inr (Some [(Lab ''A'', Fin (1 / 2))]), ex_single)
   \<and> ithgex ex_mem ex_single ''patient'' None None True ''ithgex''
     = (Inl (KeyError (Lab ''B'')), ex_single)
   \<and> ithcna ex_mem ex_single ''patient'' ''X_cnv'' ''ithcna'' True
     = (Inl (KeyError (Lab ''B'')), ex_single)"
proof (intro conjI)
  show "ithgex ex_mem ex_single ''patient'' None None False ''ithgex''
          = (Inr (Some [(Lab ''A'', Fin 2)]), ex_single)"
    by (simp add: eval_defs ex_single_def)
  show "ithcna ex_mem ex_single ''patient'' ''X_cnv'' ''ithcna'' False
          = (Inr (Some [(Lab ''A'', Fin (1 / 2))]), ex_single)"
    by (simp add: eval_defs ex_single_def)
  show "ithgex ex_mem ex_single ''patient'' None None True ''ithgex''
          = (Inl (KeyError (Lab ''B'')), ex_single)"
    by (simp add: eval_defs ex_single_def)
  show "ithcna ex_mem ex_single ''patient'' ''X_cnv'' ''ithcna'' True
          = (Inl (KeyError (Lab ''B'')), ex_single)"
    by (simp add: eval_defs ex_single_def)
qed

text \<open>
  Claim C4. \<^verbatim>\<open>cnv_score\<close> raises its \<^verbatim>\<open>ValueError\<close> exactly when the grouping column in
  force (the argument \<^verbatim>\<open>groupby\<close>, or \<^verbatim>\<open>obs_key\<close> when that is given) is named
  \<^verbatim>\<open>cnv_leiden\<close> and is not a column of \<^verbatim>\<open>adata.obs\<close>. The outcome is then the error
  with its message and the dataset as it was, whatever the representation and the other
  arguments are: nothing has been computed and nothing has been written.
\<close>

theorem cnv_score_config_error:
  "((\<exists>msg. fst (cnv_score ad groupby use_rep key_added inplace obs_key) = Inl (ValueError msg))
      = ((case obs_key of Some k \<Rightarrow> k | None \<Rightarrow> groupby) = ''cnv_leiden''
          \<and> obs ad (case obs_key of Some k \<Rightarrow> k | None \<Rightarrow> groupby) = None))
   \<and> ((\<exists>msg. fst (cnv_score ad groupby use_rep key_added inplace obs_key) = Inl (ValueError msg))
      \<longrightarrow> cnv_score ad groupby use_rep key_added inplace obs_key
            = (Inl (ValueError cnv_leiden_msg), ad))"
proof -
  let ?g = "case obs_key of Some k \<Rightarrow> k | None \<Rightarrow> groupby"
  let ?r = "cnv_score ad groupby use_rep key_added inplace obs_key"
  have raised: "?r = (Inl (ValueError cnv_leiden_msg), ad)"
    if "?g = ''cnv_leiden'' \<and> obs ad ?g = None"
    using that by (auto simp: cnv_score_def Let_def)
  have other: "\<not> (\<exists>msg. fst ?r = Inl (ValueError msg))"
    if "\<not> (?g = ''cnv_leiden'' \<and> obs ad ?g = None)"
  proof (cases "obs ad ?g")
    case None
    with that show ?thesis by (simp add: cnv_score_def Let_def)
  next
    case (Some col)
    show ?thesis
    proof (cases "cluster_scores ad use_rep col (unique col) []")
      case (Inl e)
      then have "e = KeyError (Lab (''X_'' @ use_rep)) \<or> e = IndexError"
        by (rule cluster_scores_error)
      with Some Inl show ?thesis by (auto simp: cnv_score_def Let_def)
    next
      case (Inr cs)
      show ?thesis
      proof (cases "score_array cs col")
        case (Inl e)
        then obtain c where "e = KeyError c" using score_array_error by blast
        with Some Inr Inl show ?thesis by (simp add: cnv_score_def Let_def)
      next
        case (Inr arr)
        with Some \<open>cluster_scores ad use_rep col (unique col) [] = Inr cs\<close>
        show ?thesis by (simp add: cnv_score_def Let_def)
      qed
    qed
  qed
  from raised other show ?thesis by (metis fst_conv)
qed

text \<open>
  The dataset without clustering, all arguments at their defaults: the error is raised
  and the dataset is returned untouched.
\<close>

theorem cnv_score_config_error_witness:
  "cnv_score ex_unclustered cnv_score_groupby_default cnv_score_use_rep_default
       cnv_score_key_added_default True None
     = (Inl (ValueError cnv_leiden_msg), ex_unclustered)"
proof -
  have absent: "obs ex_unclustered ''cnv_leiden'' = None"
    by (simp add: ex_unclustered_def)
  show ?thesis
    using absent
      cnv_score_config_error
        [of ex_unclustered "''cnv_leiden''" cnv_score_use_rep_default
            cnv_score_key_added_default True None]
    by (simp add: cnv_score_groupby_default_def)
qed

text \<open>
  Claim C5. On a well-formed dataset with grouping column \<open>col\<close>, whenever
  \<^verbatim>\<open>cnv_score\<close>, \<^verbatim>\<open>ithgex\<close> or \<^verbatim>\<open>ithcna\<close> returns from a call with \<^verbatim>\<open>inplace=True\<close>,
  the dataset it leaves has a column \<^verbatim>\<open>key_added\<close> of as many entries as the dataset
  has cells, and two cells with the same label have the same entry. Equality is that
  of the values: a score that is NaN is the same NaN for all cells of the group.
  The calls do return on the inputs they are made for: \<^verbatim>\<open>cnv_score\<close> when the
  representation is present and no label is NaN, \<^verbatim>\<open>ithgex\<close> and \<^verbatim>\<open>ithcna\<close> when the
  matrix source is present and every group has at least two cells.
\<close>

theorem same_group_same_score:
  assumes wf: "wf_anndata ad"
    and col: "obs ad groupby = Some col"
  shows "(cnv_score ad groupby use_rep key_added True None = (Inr r, ad')
            \<longrightarrow> (\<exists>scores. obs ad' key_added = Some scores \<and> length scores = n_obs ad
                   \<and> group_constant col scores))
       \<and> (ithgex mem ad groupby use_raw layer True key_added = (Inr r, ad')
            \<longrightarrow> (\<exists>scores. obs ad' key_added = Some scores \<and> length scores = n_obs ad
                   \<and> group_constant col scores))
       \<and> (ithcna mem ad groupby use_rep key_added True = (Inr r, ad')
            \<longrightarrow> (\<exists>scores. obs ad' key_added = Some scores \<and> length scores = n_obs ad
                   \<and> group_constant col scores))
       \<and> ((\<exists>M. obsm ad (''X_'' @ use_rep) = Some M) \<and> Num NaN \<notin> set col
            \<longrightarrow> (\<exists>ad''. cnv_score ad groupby use_rep key_added True None = (Inr None, ad'')))
       \<and> ((\<exists>M. choose_mtx_rep ad use_raw layer = Inr M)
             \<and> (\<forall>c\<in>set col. 2 \<le> group_size col c)
            \<longrightarrow> (\<exists>ad''. ithgex mem ad groupby use_raw layer True key_added = (Inr None, ad'')))
       \<and> ((\<exists>M. obsm ad use_rep = Some M) \<and> (\<forall>c\<in>set col. 2 \<le> group_size col c)
            \<longrightarrow> (\<exists>ad''. ithcna mem ad groupby use_rep key_added True = (Inr None, ad'')))"
proof -
  have n: "length col = n_obs ad" using wf col by (rule wf_obs)
  have spec: "\<exists>scores. obs ad' key_added = Some scores \<and> length scores = n_obs ad
                \<and> group_constant col scores"
    if run: "ith_spec source mem ad groupby key_added True = (Inr r, ad')" for source
  proof -
    from ith_spec_same_group [OF run col n]
    obtain ss where w: "obs ad' key_added = Some (map Num ss)" and l: "length ss = n_obs ad"
      and s: "\<forall>i<n_obs ad. \<forall>j<n_obs ad. col ! i = col ! j \<longrightarrow> ss ! i = ss ! j"
      by blast
    from l n have l': "length ss = length col" by simp
    from s n have s': "\<forall>i<length col. \<forall>j<length col. col ! i = col ! j \<longrightarrow> ss ! i = ss ! j"
      by metis
    from group_constant_Num [OF l' s'] w l show ?thesis
      by (intro exI [of _ "map Num ss"]) simp
  qed
  have cnv: "\<exists>scores. obs ad' key_added = Some scores \<and> length scores = n_obs ad
                \<and> group_constant col scores"
    if run: "cnv_score ad groupby use_rep key_added True None = (Inr r, ad')"
  proof -
    from cnv_score_same_group [OF run col]
    obtain arr where w: "obs ad' key_added = Some (map Num arr)" and l: "length arr = length col"
      and s: "\<forall>i<length col. \<forall>j<length col. col ! i = col ! j \<longrightarrow> arr ! i = arr ! j"
      by blast
    from group_constant_Num [OF l s] w l n show ?thesis
      by (intro exI [of _ "map Num arr"]) simp
  qed
  have cnv_ret: "\<exists>ad''. cnv_score ad groupby use_rep key_added True None = (Inr None, ad'')"
    if "(\<exists>M. obsm ad (''X_'' @ use_rep) = Some M) \<and> Num NaN \<notin> set col"
  proof -
    from that obtain M where M: "obsm ad (''X_'' @ use_rep) = Some M"
      and nn: "Num NaN \<notin> set col" by blast
    have c0: "obs ad (case None of Some k \<Rightarrow> k | None \<Rightarrow> groupby) = Some col"
      using col by simp
    have l: "length M = length col \<or> col = []" using wf_obsm [OF wf M] n by simp
    from cnv_score_closed(2) [OF c0 M l nn] show ?thesis by blast
  qed
  have gex_ret: "\<exists>ad''. ithgex mem ad groupby use_raw layer True key_added = (Inr None, ad'')"
    if "(\<exists>M. choose_mtx_rep ad use_raw layer = Inr M) \<and> (\<forall>c\<in>set col. 2 \<le> group_size col c)"
  proof -
    from that obtain M where M: "choose_mtx_rep ad use_raw layer = Inr M"
      and big: "\<forall>c\<in>set col. 2 \<le> group_size col c" by blast
    have l: "length M = length col" using wf_choose [OF wf M] n by simp
    from ith_spec_inplace_ok
           [of ad groupby col "\<lambda>a. choose_mtx_rep a use_raw layer" M, OF col M l n big]
    show ?thesis unfolding ithgex_spec by blast
  qed
  have cna_ret: "\<exists>ad''. ithcna mem ad groupby use_rep key_added True = (Inr None, ad'')"
    if "(\<exists>M. obsm ad use_rep = Some M) \<and> (\<forall>c\<in>set col. 2 \<le> group_size col c)"
  proof -
    from that obtain M where M: "obsm ad use_rep = Some M"
      and big: "\<forall>c\<in>set col. 2 \<le> group_size col c" by blast
    have l: "length M = length col" using wf_obsm [OF wf M] n by simp
    from ith_spec_inplace_ok
           [of ad groupby col "obsm_rep use_rep" M, OF col obsm_rep_Some [OF M] l n big]
    show ?thesis unfolding ithcna_spec by blast
  qed
  have a: "cnv_score ad groupby use_rep key_added True None = (Inr r, ad')
            \<longrightarrow> (\<exists>scores. obs ad' key_added = Some scores \<and> length scores = n_obs ad
                   \<and> group_constant col scores)"
    using cnv by blast
  have b: "ithgex mem ad groupby use_raw layer True key_added = (Inr r, ad')
            \<longrightarrow> (\<exists>scores. obs ad' key_added = Some scores \<and> length scores = n_obs ad
                   \<and> group_constant col scores)"
    unfolding ithgex_spec using spec by blast
  have c: "ithcna mem ad groupby use_rep key_added True = (Inr r, ad')
            \<longrightarrow> (\<exists>scores. obs ad' key_added = Some scores \<and> length scores = n_obs ad
                   \<and> group_constant col scores)"
    unfolding ithcna_spec using spec by blast
  from a b c cnv_ret gex_ret cna_ret show ?thesis by (intro conjI impI) blast+
qed

text \<open>The three functions on the example datasets, where each of them returns.\<close>

theorem same_group_same_score_witness:
  "(\<exists>scores. obs (snd (cnv_score ex_cnv ''cnv_leiden'' ''cnv'' ''cnv_score'' True None))
                ''cnv_score'' = Some scores
      \<and> length scores = 4
      \<and> group_constant [Lab ''A'', Lab ''A'', Lab ''B'', Lab ''B''] scores)
   \<and> (\<exists>scores. obs (snd (ithgex ex_mem ex_ith ''patient'' None None True ''ithgex''))
                ''ithgex'' = Some scores
      \<and> length scores = 4
      \<and> group_constant [Lab ''A'', Lab ''A'', Lab ''B'', Lab ''B''] scores)
   \<and> (\<exists>scores. obs (snd (ithcna ex_mem ex_ith ''patient'' ''X_cnv'' ''ithcna'' True))
                ''ithcna'' = Some scores
      \<and> length scores = 4
      \<and> group_constant [Lab ''A'', Lab ''A'', Lab ''B'', Lab ''B''] scores)"
proof -
  have c1: "obs ex_cnv ''cnv_leiden'' = Some [Lab ''A'', Lab ''A'', Lab ''B'', Lab ''B'']"
    by (simp add: ex_cnv_def)
  have c2: "obs ex_ith ''patient'' = Some [Lab ''A'', Lab ''A'', Lab ''B'', Lab ''B'']"
    by (simp add: ex_ith_def)
  have n1: "n_obs ex_cnv = 4" by (simp add: ex_cnv_def)
  have n2: "n_obs ex_ith = 4" by (simp add: ex_ith_def)
  have r1: "cnv_score ex_cnv ''cnv_leiden'' ''cnv'' ''cnv_score'' True None
              = (Inr None, snd (cnv_score ex_cnv ''cnv_leiden'' ''cnv'' ''cnv_score'' True None))"
    by (simp add: eval_defs ex_cnv_def)
  have r2: "ithgex ex_mem ex_ith ''patient'' None None True ''ithgex''
              = (Inr None, snd (ithgex ex_mem ex_ith ''patient'' None None True ''ithgex''))"
    by (simp add: eval_defs ex_ith_def)
  have r3: "ithcna ex_mem ex_ith ''patient'' ''X_cnv'' ''ithcna'' True
              = (Inr None, snd (ithcna ex_mem ex_ith ''patient'' ''X_cnv'' ''ithcna'' True))"
    by (simp add: eval_defs ex_ith_def)
  note t1 = same_group_same_score [OF wf_examples(1) c1,
      of "''cnv''" "''cnv_score''" None
         "snd (cnv_score ex_cnv ''cnv_leiden'' ''cnv'' ''cnv_score'' True None)"]
  note t2 = same_group_same_score [OF wf_examples(2) c2,
      of _ "''ithgex''" None
         "snd (ithgex ex_mem ex_ith ''patient'' None None True ''ithgex'')" ex_mem None None]
  note t3 = same_group_same_score [OF wf_examples(2) c2,
      of "''X_cnv''" "''ithcna''" None
         "snd (ithcna ex_mem ex_ith ''patient'' ''X_cnv'' ''ithcna'' True)" ex_mem]
  from t1 r1 n1 have a: "\<exists>scores. obs (snd (cnv_score ex_cnv ''cnv_leiden'' ''cnv'' ''cnv_score'' True None))
                ''cnv_score'' = Some scores
      \<and> length scores = 4
      \<and> group_constant [Lab ''A'', Lab ''A'', Lab ''B'', Lab ''B''] scores" by metis
  from t2 r2 n2 have b: "\<exists>scores. obs (snd (ithgex ex_mem ex_ith ''patient'' None None True ''ithgex''))
                ''ithgex'' = Some scores
      \<and> length scores = 4
      \<and> group_constant [Lab ''A'', Lab ''A'', Lab ''B'', Lab ''B''] scores" by metis
  from t3 r3 n2 have c: "\<exists>scores. obs (snd (ithcna ex_mem ex_ith ''patient'' ''X_cnv'' ''ithcna'' True))
                ''ithcna'' = Some scores
      \<and> length scores = 4
      \<and> group_constant [Lab ''A'', Lab ''A'', Lab ''B'', Lab ''B''] scores" by metis
  from a b c show ?thesis by blast
qed

text \<open>
  Claim C6. \<^verbatim>\<open>ithcna\<close> is \<open>ith_spec\<close>, the algorithm of \<^verbatim>\<open>ithgex\<close> as the specification
  words it, with the lookup of the representation in \<^verbatim>\<open>obsm\<close> as source of the matrix,
  and \<^verbatim>\<open>ithgex\<close> is \<open>ith_spec\<close> with \<^verbatim>\<open>_choose_mtx_rep\<close> as source: the same skip of
  small groups, the same assertion, the same score, the same choice between writing and
  returning. In particular, on a dataset that stores the representation as a layer too,
  \<^verbatim>\<open>ithgex\<close> on that layer and \<^verbatim>\<open>ithcna\<close> have the same outcome.
\<close>

theorem ithcna_is_ithgex_algorithm:
  "ithcna mem ad groupby use_rep key_added inplace
     = ith_spec (obsm_rep use_rep) mem ad groupby key_added inplace
   \<and> ithgex mem ad groupby use_raw layer inplace key_added
     = ith_spec (\<lambda>a. choose_mtx_rep a use_raw layer) mem ad groupby key_added inplace
   \<and> (layers ad use_rep = obsm ad use_rep
      \<longrightarrow> ithgex mem ad groupby None (Some use_rep) inplace key_added
          = ithcna mem ad groupby use_rep key_added inplace)"
proof -
  have src: "choose_mtx_rep ad None (Some use_rep) = obsm_rep use_rep ad"
    if "layers ad use_rep = obsm ad use_rep"
    using that by (simp add: choose_mtx_rep_def obsm_rep_def split: option.splits)
  have loops: "ith_spec_loop (\<lambda>a. choose_mtx_rep a None (Some use_rep)) ad col gs d
                 = ith_spec_loop (obsm_rep use_rep) ad col gs d"
    if "layers ad use_rep = obsm ad use_rep" for col gs d
    using src [OF that]
    by (induction gs arbitrary: d) (simp_all add: row_subset_def view_part_def split: sum.splits)
  have "ith_spec (\<lambda>a. choose_mtx_rep a None (Some use_rep)) mem ad groupby key_added inplace
          = ith_spec (obsm_rep use_rep) mem ad groupby key_added inplace"
    if "layers ad use_rep = obsm ad use_rep"
    by (simp add: ith_spec_def loops [OF that] split: option.splits)
  then show ?thesis by (simp add: ithgex_spec ithcna_spec)
qed

text \<open>The dataset \<open>ex_layered\<close>, whose layer \<^verbatim>\<open>X_cnv\<close> is its CNV representation.\<close>

theorem ithcna_is_ithgex_algorithm_witness:
  "ithgex ex_mem ex_layered ''patient'' None (Some ''X_cnv'') False ''ithgex''
     = (Inr (Some [(Lab ''A'', Fin (1 / 2)), (Lab ''B'', Fin 2)]), ex_layered)
   \<and> ith_spec (obsm_rep ''X_cnv'') ex_mem ex_layered ''patient'' ''ithgex'' False
     = (Inr (Some [(Lab ''A'', Fin (1 / 2)), (Lab ''B'', Fin 2)]), ex_layered)"
proof -
  have same: "layers ex_layered ''X_cnv'' = obsm ex_layered ''X_cnv''"
    by (simp add: ex_layered_def)
  have run: "ithcna ex_mem ex_layered ''patient'' ''X_cnv'' ''ithgex'' False
               = (Inr (Some [(Lab ''A'', Fin (1 / 2)), (Lab ''B'', Fin 2)]), ex_layered)"
    by (simp add: eval_defs ex_layered_def ex_ith_def)
  note t = ithcna_is_ithgex_algorithm
    [of ex_mem ex_layered "''patient''" "''X_cnv''" "''ithgex''" False None None]
  from t same run show ?thesis by simp
qed

text \<open>
  Claim C7. With \<^verbatim>\<open>inplace=False\<close> each of the three functions leaves the dataset as
  it was and never returns \<^verbatim>\<open>None\<close>: it returns the dictionary, or raises. A second
  call on the dataset that the first call left behind returns what the first returned.
\<close>

theorem inplace_false_returns_mapping:
  "snd (cnv_score ad groupby use_rep key_added False obs_key) = ad
   \<and> fst (cnv_score ad groupby use_rep key_added False obs_key) \<noteq> Inr None
   \<and> fst (cnv_score (snd (cnv_score ad groupby use_rep key_added False obs_key))
             groupby use_rep key_added False obs_key)
       = fst (cnv_score ad groupby use_rep key_added False obs_key)
   \<and> snd (ithgex mem ad groupby use_raw layer False key_added) = ad
   \<and> fst (ithgex mem ad groupby use_raw layer False key_added) \<noteq> Inr None
   \<and> fst (ithgex mem' (snd (ithgex mem ad groupby use_raw layer False key_added))
             groupby use_raw layer False key_added)
       = fst (ithgex mem ad groupby use_raw layer False key_added)
   \<and> snd (ithcna mem ad groupby rep key_added False) = ad
   \<and> fst (ithcna mem ad groupby rep key_added False) \<noteq> Inr None
   \<and> fst (ithcna mem' (snd (ithcna mem ad groupby rep key_added False))
             groupby rep key_added False)
       = fst (ithcna mem ad groupby rep key_added False)"
proof -
  have c: "snd (cnv_score ad groupby use_rep key_added False obs_key) = ad
           \<and> fst (cnv_score ad groupby use_rep key_added False obs_key) \<noteq> Inr None"
    by (simp add: cnv_score_def Let_def split: option.splits sum.splits)
  have g: "snd (ithgex m ad groupby use_raw layer False key_added) = ad
           \<and> fst (ithgex m ad groupby use_raw layer False key_added) \<noteq> Inr None
           \<and> fst (ithgex m ad groupby use_raw layer False key_added)
              = fst (ithgex mem ad groupby use_raw layer False key_added)" for m
    by (simp add: ithgex_def Let_def split: option.splits sum.splits)
  have a: "snd (ithcna m ad groupby rep key_added False) = ad
           \<and> fst (ithcna m ad groupby rep key_added False) \<noteq> Inr None
           \<and> fst (ithcna m ad groupby rep key_added False)
              = fst (ithcna mem ad groupby rep key_added False)" for m
    by (simp add: ithcna_def Let_def split: option.splits sum.splits)
  show ?thesis using c g [of mem] g [of mem'] a [of mem] a [of mem'] by simp
qed

text \<open>The three functions called twice on the example datasets.\<close>

theorem inplace_false_returns_mapping_witness:
  "fst (cnv_score (snd (cnv_score ex_cnv ''cnv_leiden'' ''cnv'' ''cnv_score'' False None))
          ''cnv_leiden'' ''cnv'' ''cnv_score'' False None)
     = Inr (Some [(Lab ''A'', Fin (175 / 1000)), (Lab ''B'', Fin 1)])
   \<and> fst (ithgex ex_mem (snd (ithgex ex_mem ex_ith ''patient'' None None False ''ithgex''))
          ''patient'' None None False ''ithgex'')
     = Inr (Some [(Lab ''A'', Fin 2), (Lab ''B'', Fin 0)])
   \<and> fst (ithcna ex_mem (snd (ithcna ex_mem ex_ith ''patient'' ''X_cnv'' ''ithgex'' False))
          ''patient'' ''X_cnv'' ''ithgex'' False)
     = Inr (Some [(Lab ''A'', Fin (1 / 2)), (Lab ''B'', Fin 2)])"
proof -
  note t = inplace_false_returns_mapping
    [of ex_cnv "''cnv_leiden''" "''cnv''" "''cnv_score''" None]
  note u = inplace_false_returns_mapping
    [of ex_ith "''patient''" _ "''ithgex''" _ ex_mem None None ex_mem "''X_cnv''"]
  have 1: "fst (cnv_score ex_cnv ''cnv_leiden'' ''cnv'' ''cnv_score'' False None)
             = Inr (Some [(Lab ''A'', Fin (175 / 1000)), (Lab ''B'', Fin 1)])"
    by (simp add: eval_defs ex_cnv_def)
  have 2: "fst (ithgex ex_mem ex_ith ''patient'' None None False ''ithgex'')
             = Inr (Some [(Lab ''A'', Fin 2), (Lab ''B'', Fin 0)])"
    by (simp add: eval_defs ex_ith_def)
  have 3: "fst (ithcna ex_mem ex_ith ''patient'' ''X_cnv'' ''ithgex'' False)
             = Inr (Some [(Lab ''A'', Fin (1 / 2)), (Lab ''B'', Fin 2)])"
    by (simp add: eval_defs ex_ith_def)
  show ?thesis using t u 1 2 3 by simp
qed

text \<open>
  Claim C8. Neither \<^verbatim>\<open>ithgex\<close> nor \<^verbatim>\<open>ithcna\<close> ever ends with \<^verbatim>\<open>AssertionError\<close>: the
  matrix of a group has as many rows as the view has cells, and the correlation matrix
  of at least two rows has the shape (rows, rows). On a well-formed dataset the rows of
  a group of at least two cells can be selected, their correlation matrix has the shape
  (group size, group size), and the check passes it on. The check itself answers any
  other shape with \<^verbatim>\<open>AssertionError\<close>; the zero-dimensional result that
  \<^verbatim>\<open>np.corrcoef\<close> gives for a single row is such a shape, which is why a group of one
  row is passed over before. In both loops the answer of the check is all that decides
  between ending the loop and going on, and an error that ends the loop ends the call:
  it is the outcome, with either value of \<^verbatim>\<open>inplace\<close>, and the dataset is as it was.
\<close>

theorem corrcoef_shape_assertion:
  "fst (ithgex mem ad groupby use_raw layer inplace key_added) \<noteq> Inl AssertionError
   \<and> fst (ithcna mem ad groupby use_rep key_added inplace) \<noteq> Inl AssertionError
   \<and> (wf_anndata ad
      \<longrightarrow> (\<forall>col M c. obs ad groupby = Some col
              \<and> (obsm ad use_rep = Some M \<or> choose_mtx_rep ad use_raw layer = Inr M)
              \<and> 2 \<le> group_size col c
              \<longrightarrow> select (eq_mask col c) M = Inr (masked_rows (eq_mask col c) M)
                \<and> shape (corrcoef (masked_rows (eq_mask col c) M))
                    = [group_size col c, group_size col c]
                \<and> check_pcorr (corrcoef (masked_rows (eq_mask col c) M)) (group_size col c)
                    = Inr (corrcoef (masked_rows (eq_mask col c) M))))
   \<and> (\<forall>pcorr n. shape pcorr \<noteq> [n, n] \<longrightarrow> check_pcorr pcorr n = Inl AssertionError)
   \<and> (\<forall>row. check_pcorr (corrcoef [row]) 1 = Inl AssertionError)
   \<and> (\<forall>col grp rest d cells M.
         row_subset ad (eq_mask col grp) = Inr cells \<and> \<not> length M \<le> 1
         \<longrightarrow> (view_part cells (\<lambda>a. choose_mtx_rep a use_raw layer) = Inr M
              \<longrightarrow> ithgex_loop ad col use_raw layer (grp # rest) d
                  = (case check_pcorr (corrcoef M) (view_n_obs cells) of
                       Inl e \<Rightarrow> Inl e
                     | Inr pcorr \<Rightarrow>
                         ithgex_loop ad col use_raw layer rest (AList.update grp (iqr pcorr) d)))
           \<and> (view_part cells (obsm_rep use_rep) = Inr M
              \<longrightarrow> ithcna_loop ad col use_rep (grp # rest) d
                  = (case check_pcorr (corrcoef M) (view_n_obs cells) of
                       Inl e \<Rightarrow> Inl e
                     | Inr pcorr \<Rightarrow>
                         ithcna_loop ad col use_rep rest (AList.update grp (iqr pcorr) d))))
   \<and> (\<forall>col e. obs ad groupby = Some col
         \<and> ithgex_loop ad col use_raw layer (unique col) [] = Inl e
         \<longrightarrow> ithgex mem ad groupby use_raw layer inplace key_added = (Inl e, ad))
   \<and> (\<forall>col e. obs ad groupby = Some col
         \<and> ithcna_loop ad col use_rep (unique col) [] = Inl e
         \<longrightarrow> ithcna mem ad groupby use_rep key_added inplace = (Inl e, ad))"
proof -
  have gex: "fst (ithgex mem ad groupby use_raw layer inplace key_added) \<noteq> Inl AssertionError"
    unfolding ithgex_spec
    by (rule ith_spec_no_assert) (rule choose_mtx_rep_no_assert)
  have cna: "fst (ithcna mem ad groupby use_rep key_added inplace) \<noteq> Inl AssertionError"
    unfolding ithcna_spec
    by (rule ith_spec_no_assert) (rule obsm_rep_no_assert)
  have sh: "wf_anndata ad
      \<longrightarrow> (\<forall>col M c. obs ad groupby = Some col
              \<and> (obsm ad use_rep = Some M \<or> choose_mtx_rep ad use_raw layer = Inr M)
              \<and> 2 \<le> group_size col c
              \<longrightarrow> select (eq_mask col c) M = Inr (masked_rows (eq_mask col c) M)
                \<and> shape (corrcoef (masked_rows (eq_mask col c) M))
                    = [group_size col c, group_size col c]
                \<and> check_pcorr (corrcoef (masked_rows (eq_mask col c) M)) (group_size col c)
                    = Inr (corrcoef (masked_rows (eq_mask col c) M)))"
  proof (intro impI allI)
    fix col M c
    assume wf: "wf_anndata ad"
      and h: "obs ad groupby = Some col
              \<and> (obsm ad use_rep = Some M \<or> choose_mtx_rep ad use_raw layer = Inr M)
              \<and> 2 \<le> group_size col c"
    from h have col: "obs ad groupby = Some col"
      and M: "obsm ad use_rep = Some M \<or> choose_mtx_rep ad use_raw layer = Inr M"
      and c: "2 \<le> group_size col c" by simp_all
    have "length M = n_obs ad" using M wf_obsm [OF wf] wf_choose [OF wf] by blast
    then have lM: "length M = length col" using wf_obs [OF wf col] by simp
    then have s: "select (eq_mask col c) M = Inr (masked_rows (eq_mask col c) M)"
      by (simp add: select_Inr)
    have l: "length (masked_rows (eq_mask col c) M) = group_size col c"
      using lM by (rule length_group_rows)
    with c have big: "2 \<le> length (masked_rows (eq_mask col c) M)" by simp
    from shape_corrcoef [OF big] check_pcorr_ok [OF big] l s
    show "select (eq_mask col c) M = Inr (masked_rows (eq_mask col c) M)
                \<and> shape (corrcoef (masked_rows (eq_mask col c) M))
                    = [group_size col c, group_size col c]
                \<and> check_pcorr (corrcoef (masked_rows (eq_mask col c) M)) (group_size col c)
                    = Inr (corrcoef (masked_rows (eq_mask col c) M))"
      by simp
  qed
  have chk: "\<forall>pcorr n. shape pcorr \<noteq> [n, n] \<longrightarrow> check_pcorr pcorr n = Inl AssertionError"
    by (simp add: check_pcorr_def)
  have one: "\<forall>row. check_pcorr (corrcoef [row]) 1 = Inl AssertionError"
    by (simp add: check_pcorr_def)
  have step: "\<forall>col grp rest d cells M.
         row_subset ad (eq_mask col grp) = Inr cells \<and> \<not> length M \<le> 1
         \<longrightarrow> (view_part cells (\<lambda>a. choose_mtx_rep a use_raw layer) = Inr M
              \<longrightarrow> ithgex_loop ad col use_raw layer (grp # rest) d
                  = (case check_pcorr (corrcoef M) (view_n_obs cells) of
                       Inl e \<Rightarrow> Inl e
                     | Inr pcorr \<Rightarrow>
                         ithgex_loop ad col use_raw layer rest (AList.update grp (iqr pcorr) d)))
           \<and> (view_part cells (obsm_rep use_rep) = Inr M
              \<longrightarrow> ithcna_loop ad col use_rep (grp # rest) d
                  = (case check_pcorr (corrcoef M) (view_n_obs cells) of
                       Inl e \<Rightarrow> Inl e
                     | Inr pcorr \<Rightarrow>
                         ithcna_loop ad col use_rep rest (AList.update grp (iqr pcorr) d)))"
    by simp
  have err_gex: "\<forall>col e. obs ad groupby = Some col
         \<and> ithgex_loop ad col use_raw layer (unique col) [] = Inl e
         \<longrightarrow> ithgex mem ad groupby use_raw layer inplace key_added = (Inl e, ad)"
    by (simp add: ithgex_def)
  have err_cna: "\<forall>col e. obs ad groupby = Some col
         \<and> ithcna_loop ad col use_rep (unique col) [] = Inl e
         \<longrightarrow> ithcna mem ad groupby use_rep key_added inplace = (Inl e, ad)"
    by (simp add: ithcna_def)
  show ?thesis
    by (rule conjI [OF gex conjI [OF cna conjI [OF sh conjI [OF chk conjI [OF one
          conjI [OF step conjI [OF err_gex err_cna]]]]]]])
qed

text \<open>
  The dataset \<open>ex_ith\<close> and the rows of its group A; the check on the correlation of a
  single row and on a 1 x 1 array where 2 x 2 is expected; the calls for a layer and a
  representation that \<open>ex_ith\<close> does not have, where the failed lookup ends the loop.
\<close>

theorem corrcoef_shape_assertion_witness:
  "fst (ithgex ex_mem ex_ith ''patient'' None None True ''ithgex'') \<noteq> Inl AssertionError
   \<and> fst (ithcna ex_mem ex_ith ''patient'' ''X_cnv'' ''ithgex'' True) \<noteq> Inl AssertionError
   \<and> shape (corrcoef [[0, 2, 4], [0, 4, 2]]) = [2, 2]
   \<and> check_pcorr (corrcoef [[0, 2, 4], [0, 4, 2]]) 2 = Inr (corrcoef [[0, 2, 4], [0, 4, 2]])
   \<and> check_pcorr (corrcoef [[0, 2, 4]]) 1 = Inl AssertionError
   \<and> check_pcorr (Arr2 [[Fin 1]]) 2 = Inl AssertionError
   \<and> ithgex ex_mem ex_ith ''patient'' None (Some ''counts'') False ''ithgex''
       = (Inl (KeyError (Lab ''counts'')), ex_ith)
   \<and> ithcna ex_mem ex_ith ''patient'' ''X_pca'' ''ithgex'' False
       = (Inl (KeyError (Lab ''X_pca'')), ex_ith)"
proof -
  let ?col = "[Lab ''A'', Lab ''A'', Lab ''B'', Lab ''B'']"
  let ?M = "[[0, 2, 4], [0, 4, 2], [0, 2, 4], [4, 2, 0 :: real]]"
  note t = corrcoef_shape_assertion
    [of ex_mem ex_ith "''patient''" None None True "''ithgex''" "''X_cnv''"]
  note u = corrcoef_shape_assertion
    [of ex_mem ex_ith "''patient''" None "Some ''counts''" False "''ithgex''" "''X_pca''"]
  have col: "obs ex_ith ''patient'' = Some ?col"
    by (simp add: ex_ith_def)
  have rep: "obsm ex_ith ''X_cnv'' = Some ?M"
    by (simp add: ex_ith_def)
  have g: "group_size ?col (Lab ''A'') = 2"
    by (simp add: group_size_def eq_mask_def py_eq_def)
  have s: "masked_rows (eq_mask ?col (Lab ''A'')) ?M = [[0, 2, 4], [0, 4, 2]]"
    by (simp add: masked_rows_def eq_mask_def py_eq_def)
  have bad: "shape (Arr2 [[Fin 1]]) \<noteq> [2, 2]" by simp
  have lg: "ithgex_loop ex_ith ?col None (Some ''counts'') (unique ?col) []
              = Inl (KeyError (Lab ''counts''))"
    by (simp add: eval_defs ex_ith_def)
  have lc: "ithcna_loop ex_ith ?col ''X_pca'' (unique ?col) [] = Inl (KeyError (Lab ''X_pca''))"
    by (simp add: eval_defs ex_ith_def)
  have g2: "2 \<le> group_size ?col (Lab ''A'')" unfolding g by simp
  note 1 = t [THEN conjunct1]
  note 2 = t [THEN conjunct2, THEN conjunct1]
  note 3 = t [THEN conjunct2, THEN conjunct2, THEN conjunct1, rule_format,
              OF wf_examples(2) conjI [OF col conjI [OF disjI1 [OF rep] g2]],
              THEN conjunct2, unfolded s g]
  note 4 = t [THEN conjunct2, THEN conjunct2, THEN conjunct2, THEN conjunct2, THEN conjunct1,
              rule_format, of "[0, 2, 4]"]
  note 5 = t [THEN conjunct2, THEN conjunct2, THEN conjunct2, THEN conjunct1,
              rule_format, OF bad]
  note 6 = u [THEN conjunct2, THEN conjunct2, THEN conjunct2, THEN conjunct2, THEN conjunct2,
              THEN conjunct2, THEN conjunct1, rule_format, OF conjI [OF col lg]]
  note 7 = u [THEN conjunct2, THEN conjunct2, THEN conjunct2, THEN conjunct2, THEN conjunct2,
              THEN conjunct2, THEN conjunct2, rule_format, OF conjI [OF col lc]]
  from 1 2 3 4 5 6 7 show ?thesis by simp
qed

text \<open>
  Claim C9. On a well-formed dataset in which some label \<open>c\<close> of the grouping column
  has at most one cell, \<^verbatim>\<open>ithgex\<close> and \<^verbatim>\<open>ithcna\<close> called with \<^verbatim>\<open>inplace=True\<close>, the
  matrix source being present so that the first loop completes, raise \<^verbatim>\<open>KeyError\<close> for
  a label of at most one cell, and the dataset is as it was: the column \<^verbatim>\<open>key_added\<close>
  has not been written.
\<close>

theorem ith_inplace_small_group_keyerror:
  assumes wf: "wf_anndata ad"
    and col: "obs ad groupby = Some col"
    and c: "c \<in> set col" "group_size col c \<le> 1"
  shows "((\<exists>M. choose_mtx_rep ad use_raw layer = Inr M)
            \<longrightarrow> (\<exists>c'\<in>set col. group_size col c' \<le> 1
                   \<and> ithgex mem ad groupby use_raw layer True key_added
                       = (Inl (KeyError c'), ad)))
       \<and> ((\<exists>M. obsm ad use_rep = Some M)
            \<longrightarrow> (\<exists>c'\<in>set col. group_size col c' \<le> 1
                   \<and> ithcna mem ad groupby use_rep key_added True
                       = (Inl (KeyError c'), ad)))"
proof (intro conjI impI)
  have n: "length col = n_obs ad" using wf col by (rule wf_obs)
  {
    assume "\<exists>M. choose_mtx_rep ad use_raw layer = Inr M"
    then obtain M where gex: "choose_mtx_rep ad use_raw layer = Inr M" by blast
    have l: "length M = length col" using wf_choose [OF wf gex] n by simp
    show "\<exists>c'\<in>set col. group_size col c' \<le> 1
            \<and> ithgex mem ad groupby use_raw layer True key_added = (Inl (KeyError c'), ad)"
      unfolding ithgex_spec
      by (rule ith_spec_inplace_fail
            [of ad groupby col "\<lambda>a. choose_mtx_rep a use_raw layer" M c, OF col gex l n c])
  }
  {
    assume "\<exists>M. obsm ad use_rep = Some M"
    then obtain M where cna: "obsm ad use_rep = Some M" by blast
    have l: "length M = length col" using wf_obsm [OF wf cna] n by simp
    show "\<exists>c'\<in>set col. group_size col c' \<le> 1
            \<and> ithcna mem ad groupby use_rep key_added True = (Inl (KeyError c'), ad)"
      unfolding ithcna_spec
      by (rule ith_spec_inplace_fail
            [of ad groupby col "obsm_rep use_rep" M c, OF col obsm_rep_Some [OF cna] l n c])
  }
qed

text \<open>The dataset \<open>ex_single\<close>: the key of the error is the label B of the single cell.\<close>

theorem ith_inplace_small_group_keyerror_witness:
  "ithgex ex_mem ex_single ''patient'' None None True ''ithgex''
     = (Inl (KeyError (Lab ''B'')), ex_single)
   \<and> ithcna ex_mem ex_single ''patient'' ''X_cnv'' ''ithcna'' True
     = (Inl (KeyError (Lab ''B'')), ex_single)"
proof -
  let ?col = "[Lab ''A'', Lab ''A'', Lab ''B'']"
  have col: "obs ex_single ''patient'' = Some ?col" by (simp add: ex_single_def)
  have cna: "\<exists>M. obsm ex_single ''X_cnv'' = Some M"
    by (simp add: ex_single_def)
  have gex: "\<exists>M. choose_mtx_rep ex_single None None = Inr M"
    by (simp add: ex_single_def choose_mtx_rep_def)
  have b: "Lab ''B'' \<in> set ?col" by simp
  have sb: "group_size ?col (Lab ''B'') \<le> 1"
    by (simp add: group_size_def eq_mask_def py_eq_def)
  have only: "c' = Lab ''B''" if "c' \<in> set ?col" "group_size ?col c' \<le> 1" for c'
    using that by (auto simp: group_size_def eq_mask_def py_eq_def)
  note t = ith_inplace_small_group_keyerror [OF wf_examples(3) col b sb]
  from t [of None None ex_mem "''ithgex''", THEN conjunct1, rule_format, OF gex] only
  have 1: "ithgex ex_mem ex_single ''patient'' None None True ''ithgex''
             = (Inl (KeyError (Lab ''B'')), ex_single)" by metis
  from t [of _ _ ex_mem "''ithcna''" "''X_cnv''", THEN conjunct2, rule_format, OF cna] only
  have 2: "ithcna ex_mem ex_single ''patient'' ''X_cnv'' ''ithcna'' True
             = (Inl (KeyError (Lab ''B'')), ex_single)" by metis
  from 1 2 show ?thesis by simp
qed

text \<open>
  Claim C10. The default of \<^verbatim>\<open>key_added\<close> in \<^verbatim>\<open>ithcna\<close> is \<^verbatim>\<open>"ithgex"\<close>, the default
  of \<^verbatim>\<open>ithgex\<close>. When \<^verbatim>\<open>ithgex\<close> and then \<^verbatim>\<open>ithcna\<close> return from calls with
  \<^verbatim>\<open>inplace=True\<close> and the default keys, both have written the column \<^verbatim>\<open>ithgex\<close>, the
  final dataset is the initial one with that column holding what \<^verbatim>\<open>ithcna\<close> wrote, and
  the column \<^verbatim>\<open>ithcna\<close> is as it was before the two calls.
\<close>

theorem ithcna_default_key_is_ithgex:
  "ithcna_key_added_default = ''ithgex''
   \<and> ithcna_key_added_default = ithgex_key_added_default
   \<and> (ithgex mem ad groupby use_raw layer True ithgex_key_added_default = (Inr r1, ad1)
       \<and> ithcna mem' ad1 groupby' use_rep ithcna_key_added_default True = (Inr r2, ad2)
       \<longrightarrow> (\<exists>s1 s2. ad1 = ad\<lparr>obs := (obs ad)(''ithgex'' \<mapsto> s1)\<rparr>
                  \<and> ad2 = ad\<lparr>obs := (obs ad)(''ithgex'' \<mapsto> s2)\<rparr>
                  \<and> obs (snd (ithcna mem' ad1 groupby' use_rep ithcna_key_added_default True))
                       ''ithgex'' = Some s2)
           \<and> obs ad2 ''ithcna'' = obs ad ''ithcna'')"
proof -
  have k: "ithcna_key_added_default = ''ithgex''" "ithgex_key_added_default = ''ithgex''"
    by (simp_all add: ithcna_key_added_default_def ithgex_key_added_default_def)
  have "(\<exists>s1 s2. ad1 = ad\<lparr>obs := (obs ad)(''ithgex'' \<mapsto> s1)\<rparr>
                  \<and> ad2 = ad\<lparr>obs := (obs ad)(''ithgex'' \<mapsto> s2)\<rparr>
                  \<and> obs (snd (ithcna mem' ad1 groupby' use_rep ''ithgex'' True))
                       ''ithgex'' = Some s2)
           \<and> obs ad2 ''ithcna'' = obs ad ''ithcna''"
    if g: "ithgex mem ad groupby use_raw layer True ''ithgex'' = (Inr r1, ad1)"
      and a: "ithcna mem' ad1 groupby' use_rep ''ithgex'' True = (Inr r2, ad2)"
  proof -
    from g obtain s1 where s1: "ad1 = ad\<lparr>obs := (obs ad)(''ithgex'' \<mapsto> s1)\<rparr>"
      unfolding ithgex_spec using ith_spec_True_writes by blast
    from a obtain s2 where s2: "ad2 = ad1\<lparr>obs := (obs ad1)(''ithgex'' \<mapsto> s2)\<rparr>"
      unfolding ithcna_spec using ith_spec_True_writes by blast
    have ad2: "ad2 = ad\<lparr>obs := (obs ad)(''ithgex'' \<mapsto> s2)\<rparr>"
      unfolding s2 s1 by simp
    have "obs (snd (ithcna mem' ad1 groupby' use_rep ''ithgex'' True)) ''ithgex'' = Some s2"
      unfolding a s2 by simp
    moreover have "obs ad2 ''ithcna'' = obs ad ''ithcna''" unfolding ad2 by simp
    ultimately show ?thesis using s1 ad2 by blast
  qed
  with k show ?thesis by simp
qed

text \<open>
  The dataset \<open>ex_ith\<close>: \<^verbatim>\<open>ithgex\<close> writes 2, 2, 0, 0 to the column \<^verbatim>\<open>ithgex\<close>,
  \<^verbatim>\<open>ithcna\<close> replaces it by 1/2, 1/2, 2, 2, and there is no column \<^verbatim>\<open>ithcna\<close>.
\<close>

theorem ithcna_default_key_is_ithgex_witness:
  "obs (snd (ithgex ex_mem ex_ith ''patient'' None None True ithgex_key_added_default))
     = (obs ex_ith)(''ithgex'' \<mapsto> [Num (Fin 2), Num (Fin 2), Num (Fin 0), Num (Fin 0)])
   \<and> obs (snd (ithcna ex_mem
              (snd (ithgex ex_mem ex_ith ''patient'' None None True ithgex_key_added_default))
              ''patient'' ithcna_use_rep_default ithcna_key_added_default True))
     = (obs ex_ith)(''ithgex'' \<mapsto>
          [Num (Fin (1 / 2)), Num (Fin (1 / 2)), Num (Fin 2), Num (Fin 2)])
   \<and> obs (snd (ithcna ex_mem
              (snd (ithgex ex_mem ex_ith ''patient'' None None True ithgex_key_added_default))
              ''patient'' ithcna_use_rep_default ithcna_key_added_default True)) ''ithcna''
     = None"
proof -
  let ?ad1 = "ex_ith\<lparr>obs := (obs ex_ith)(''ithgex'' \<mapsto>
                 [Num (Fin 2), Num (Fin 2), Num (Fin 0), Num (Fin 0)])\<rparr>"
  let ?ad2 = "ex_ith\<lparr>obs := (obs ex_ith)(''ithgex'' \<mapsto>
                 [Num (Fin (1 / 2)), Num (Fin (1 / 2)), Num (Fin 2), Num (Fin 2)])\<rparr>"
  have g: "ithgex ex_mem ex_ith ''patient'' None None True ithgex_key_added_default
             = (Inr None, ?ad1)"
    by (simp add: eval_defs ex_ith_def ithgex_key_added_default_def upt_0_4)
  have a: "ithcna ex_mem ?ad1 ''patient'' ithcna_use_rep_default ithcna_key_added_default True
             = (Inr None, ?ad2)"
    by (simp add: eval_defs ex_ith_def ithcna_key_added_default_def ithcna_use_rep_default_def
                  upt_0_4)
  have none: "obs ex_ith ''ithcna'' = None" by (simp add: ex_ith_def)
  note t = ithcna_default_key_is_ithgex
    [of ex_mem ex_ith "''patient''" None None None ?ad1 ex_mem "''patient''"
        ithcna_use_rep_default None ?ad2]
  from t g a have "obs ?ad2 ''ithcna'' = obs ex_ith ''ithcna''" by blast
  with none have 3: "obs ?ad2 ''ithcna'' = None" by simp
  have 1: "obs ?ad1 = (obs ex_ith)(''ithgex'' \<mapsto>
             [Num (Fin 2), Num (Fin 2), Num (Fin 0), Num (Fin 0)])" by simp
  have 2: "obs ?ad2 = (obs ex_ith)(''ithgex'' \<mapsto>
             [Num (Fin (1 / 2)), Num (Fin (1 / 2)), Num (Fin 2), Num (Fin 2)])" by simp
  show ?thesis unfolding g snd_conv a using 1 2 3 by blast
qed

end
